theory Spec2Isabelle
  imports Main "HOL-Library.Word" "HOL-Library.Sublist"
begin

section \<open>Gateway chat attachments (src/gateway/chat-attachments.ts)\<close>

text \<open>
  A shallow embedding of the attachment ingestion code.  JavaScript strings are modelled
  as \<open>string\<close>: one \<open>char\<close> per code unit, restricted to the code units 0..255.
  Byte buffers are lists of 8-bit words.  Byte counts and the ceiling \<open>maxBytes\<close> are
  natural numbers.
\<close>

subsection \<open>String primitives of the platform\<close>

type_synonym byte = "8 word"

definition charCode :: "char \<Rightarrow> nat" where
  "charCode c = of_char c"

text \<open>White space and line terminators, as \<open>String.prototype.trim\<close> and the regular
  expression class \<open>\s\<close> see them, among the code units 0..255.\<close>

definition is_ws :: "char \<Rightarrow> bool" where
  "is_ws c = (charCode c \<in> {9, 10, 11, 12, 13, 32, 160})"

definition trim :: "string \<Rightarrow> string" where
  "trim s = rev (dropWhile is_ws (rev (dropWhile is_ws s)))"

text \<open>\<open>String.prototype.toLowerCase\<close> on the code units 0..255: the ASCII capitals and
  the Latin-1 capitals (U+00C0..U+00DE without the multiplication sign) move up by 32.\<close>

definition lower_char :: "char \<Rightarrow> char" where
  "lower_char c = (let n = charCode c in
     if (65 \<le> n \<and> n \<le> 90) \<or> (192 \<le> n \<and> n \<le> 222 \<and> n \<noteq> 215)
     then char_of (n + 32) else c)"

definition toLowerCase :: "string \<Rightarrow> string" where
  "toLowerCase s = map lower_char s"

definition startsWith :: "string \<Rightarrow> string \<Rightarrow> bool" where
  "startsWith s p = (take (length p) s = p)"

text \<open>Decimal rendering of a number inside a template literal.\<close>

definition digit_char :: "nat \<Rightarrow> char" where
  "digit_char d = char_of (48 + d)"

function string_of_nat :: "nat \<Rightarrow> string" where
  "string_of_nat n =
     (if n < 10 then [digit_char n] else string_of_nat (n div 10) @ [digit_char (n mod 10)])"
  by pat_completeness auto
termination
  by (relation "measure id") auto

declare string_of_nat.simps [simp del]

text \<open>\<open>label.replace(/\s+/g, "_")\<close>: every maximal run of white space becomes one
  underscore.\<close>

fun replace_ws_from :: "bool \<Rightarrow> string \<Rightarrow> string" where
  "replace_ws_from in_run [] = []"
| "replace_ws_from in_run (c # cs) =
     (if is_ws c then (if in_run then replace_ws_from True cs
                       else CHR ''_'' # replace_ws_from True cs)
      else c # replace_ws_from False cs)"

definition replace_ws_runs :: "string \<Rightarrow> string" where
  "replace_ws_runs s = replace_ws_from False s"

fun join :: "string \<Rightarrow> string list \<Rightarrow> string" where
  "join sep [] = []"
| "join sep [x] = x"
| "join sep (x # y # ys) = x @ sep @ join sep (y # ys)"

subsection \<open>Base64 decoding of the platform\<close>

text \<open>
  \<open>Buffer.from(s, "base64")\<close> is the platform's lenient decoder: it never raises,
  accepts both the standard and the URL-safe alphabet, ignores every other character,
  stops at the first \<open>=\<close>, and turns each full group of four sextets into three bytes; a
  trailing group of three gives two bytes, of two gives one byte, and a single trailing
  sextet gives none.  The \<open>catch\<close> branches around it in the source are therefore
  unreachable and have no counterpart below.
\<close>

definition unbase64 :: "char \<Rightarrow> nat option" where
  "unbase64 c = (let n = charCode c in
     if 65 \<le> n \<and> n \<le> 90 then Some (n - 65)
     else if 97 \<le> n \<and> n \<le> 122 then Some (n - 71)
     else if 48 \<le> n \<and> n \<le> 57 then Some (n + 4)
     else if c = CHR ''+'' \<or> c = CHR ''-'' then Some 62
     else if c = CHR ''/'' \<or> c = CHR ''_'' then Some 63
     else None)"

fun sextets_to_bytes :: "nat list \<Rightarrow> byte list" where
  "sextets_to_bytes (a # b # c # d # rest) =
     of_nat (a * 4 + b div 16) # of_nat ((b mod 16) * 16 + c div 4)
       # of_nat ((c mod 4) * 64 + d) # sextets_to_bytes rest"
| "sextets_to_bytes [a, b, c] =
     [of_nat (a * 4 + b div 16), of_nat ((b mod 16) * 16 + c div 4)]"
| "sextets_to_bytes [a, b] = [of_nat (a * 4 + b div 16)]"
| "sextets_to_bytes _ = []"

definition base64_decode :: "string \<Rightarrow> byte list" where
  "base64_decode s =
     sextets_to_bytes (List.map_filter unbase64 (takeWhile (\<lambda>c. c \<noteq> CHR ''='') s))"

text \<open>The character class \<open>[A-Za-z0-9+/=]\<close> of the alphabet check, and the test
  \<open>/[^A-Za-z0-9+/=]/.test(b64)\<close>.\<close>

definition is_b64_char :: "char \<Rightarrow> bool" where
  "is_b64_char c = (let n = charCode c in
     (65 \<le> n \<and> n \<le> 90) \<or> (97 \<le> n \<and> n \<le> 122) \<or> (48 \<le> n \<and> n \<le> 57)
     \<or> c = CHR ''+'' \<or> c = CHR ''/'' \<or> c = CHR ''='')"

definition has_illegal_char :: "string \<Rightarrow> bool" where
  "has_illegal_char b64 = (\<exists>c \<in> set b64. \<not> is_b64_char c)"

subsection \<open>MIME helpers and the content normalizer\<close>

text \<open>\<open>normalizeMime\<close>: the text before the first \<open>;\<close>, trimmed and lower-cased;
  undefined for an absent or empty argument and for an empty result.\<close>

definition normalizeMime :: "string option \<Rightarrow> string option" where
  "normalizeMime mime =
     (case mime of
        None \<Rightarrow> None
      | Some m \<Rightarrow>
          if m = [] then None
          else (let cleaned = toLowerCase (trim (takeWhile (\<lambda>c. c \<noteq> CHR '';'') m))
                in if cleaned = [] then None else Some cleaned))"

text \<open>
  The match of \<open>/^data:[^;]+;base64,(.*)$/\<close>: after \<open>data:\<close> a non-empty run of
  characters other than \<open>;\<close>, which can only end at the first \<open>;\<close>, then \<open>;base64,\<close>,
  then a rest without line terminators (the dot does not match them, and \<open>$\<close> is the
  end of the input).  The result is the captured rest.
\<close>

definition is_line_terminator :: "char \<Rightarrow> bool" where
  "is_line_terminator c = (charCode c \<in> {10, 13})"

definition match_data_url :: "string \<Rightarrow> string option" where
  "match_data_url t =
     (if startsWith t ''data:'' then
        (let r = drop 5 t;
             m = takeWhile (\<lambda>c. c \<noteq> CHR '';'') r;
             q = dropWhile (\<lambda>c. c \<noteq> CHR '';'') r
         in if m \<noteq> [] \<and> startsWith q '';base64,''
               \<and> \<not> (\<exists>c \<in> set (drop 8 q). is_line_terminator c)
            then Some (drop 8 q) else None)
      else None)"

definition stripDataUrlPrefix :: "string \<Rightarrow> string" where
  "stripDataUrlPrefix content =
     (let trimmed = trim content
      in case match_data_url trimmed of Some payload \<Rightarrow> payload | None \<Rightarrow> trimmed)"

definition url_safe_to_std :: "char \<Rightarrow> char" where
  "url_safe_to_std c =
     (if c = CHR ''-'' then CHR ''+'' else if c = CHR ''_'' then CHR ''/'' else c)"

definition normalizeBase64ForDecode :: "string \<Rightarrow> string" where
  "normalizeBase64ForDecode content =
     (let s = map url_safe_to_std (trim (stripDataUrlPrefix content));
          remainder = length s mod 4
      in if remainder \<noteq> 0 then s @ replicate (4 - remainder) CHR ''='' else s)"

definition isImageMime :: "string option \<Rightarrow> bool" where
  "isImageMime mime = (case mime of None \<Rightarrow> False | Some m \<Rightarrow> startsWith m ''image/'')"

definition isAudioMime :: "string option \<Rightarrow> bool" where
  "isAudioMime mime = (case mime of None \<Rightarrow> False | Some m \<Rightarrow> startsWith m ''audio/'')"

subsection \<open>The format sniffer\<close>

text \<open>
  \<open>detectMime\<close> lives in \<open>../media/mime.js\<close>, outside the sources at hand.  It is a
  parameter \<open>dm\<close> of everything below: a function from a byte buffer to a detected MIME
  string, to undefined, or to a rejection of the promise.
\<close>

datatype detect_result = Detected string | Undetected | Rejected

type_synonym detector = "byte list \<Rightarrow> detect_result"

definition sniffMimeFromBase64 :: "detector \<Rightarrow> string \<Rightarrow> string option" where
  "sniffMimeFromBase64 dm base64 =
     (let normalized = normalizeBase64ForDecode base64
      in if normalized = [] then None
         else (let take_n = min 256 (length normalized);
                   sliceLen = take_n - take_n mod 4
               in if sliceLen < 8 then None
                  else (case dm (base64_decode (take sliceLen normalized)) of
                          Detected m \<Rightarrow> Some m
                        | Undetected \<Rightarrow> None
                        | Rejected \<Rightarrow> None)))"

subsection \<open>Data model\<close>

text \<open>The field \<open>content\<close> has the type \<open>unknown\<close>: a string, or a value of any other
  shape.\<close>

datatype content = Str string | NotString

record ChatAttachment =
  att_type :: "string option"
  att_mimeType :: "string option"
  att_fileName :: "string option"
  att_content :: content

record ChatImageContent =
  img_type :: string
  img_data :: string
  img_mimeType :: string

record ParsedMessageWithImages =
  message :: string
  images :: "ChatImageContent list"

record FirstAudioResult =
  buffer :: "byte list"
  audio_mimeType :: string

text \<open>The options of the lenient path: the ceiling, and whether a warning sink is
  given.  The warnings that reach the sink are returned in the order of the calls.\<close>

record parse_opts =
  opt_maxBytes :: "nat option"
  opt_log :: bool

text \<open>Every \<open>throw\<close> of the source is a value of this type.  \<open>DetectorRejected\<close>
  stands for a rejection of \<open>detectMime\<close> that nothing catches.\<close>

datatype error =
    UnsupportedContentShape string
  | InvalidEncoding string
  | SizeExceeded string nat nat
  | OnlyImageSupported string
  | DetectorRejected

text \<open>
  A template literal renders an integral number in plain decimal as long as it is below
  \<open>10^21\<close>; from there on JavaScript switches to exponent notation, which is not
  modelled: \<open>number_text\<close> is then undefined.  \<open>error_message\<close> is the text of the
  thrown \<open>Error\<close>, defined where its numbers are.
\<close>

definition number_text :: "nat \<Rightarrow> string option" where
  "number_text n = (if n < 1000000000000000000000 then Some (string_of_nat n) else None)"

fun error_message :: "error \<Rightarrow> string option" where
  "error_message (UnsupportedContentShape label) =
     Some (''attachment '' @ label @ '': content must be base64 string'')"
| "error_message (InvalidEncoding label) =
     Some (''attachment '' @ label @ '': invalid base64 content'')"
| "error_message (SizeExceeded label sizeBytes maxBytes) =
     (case number_text sizeBytes of
        None \<Rightarrow> None
      | Some size_text \<Rightarrow>
          (case number_text maxBytes of
             None \<Rightarrow> None
           | Some max_text \<Rightarrow>
               Some (''attachment '' @ label @ '': exceeds size limit ('' @ size_text
                     @ '' > '' @ max_text @ '' bytes)'')))"
| "error_message (OnlyImageSupported label) =
     Some (''attachment '' @ label @ '': only image/* supported'')"
| "error_message DetectorRejected = Some ''detectMime rejected''"

text \<open>\<open>att.fileName || att.type || `attachment-${idx + 1}`\<close>: an absent or empty string
  is falsy.  An array index stays far below \<open>10^21\<close>, so the position is rendered in
  plain decimal.\<close>

definition or_else :: "string option \<Rightarrow> string \<Rightarrow> string" where
  "or_else s d = (case s of None \<Rightarrow> d | Some t \<Rightarrow> if t = [] then d else t)"

definition label_of :: "ChatAttachment \<Rightarrow> nat \<Rightarrow> string" where
  "label_of att idx =
     or_else (att_fileName att)
       (or_else (att_type att) (''attachment-'' @ string_of_nat (idx + 1)))"

text \<open>\<open>att.mimeType ?? ""\<close>\<close>

definition mime_or_empty :: "ChatAttachment \<Rightarrow> string" where
  "mime_or_empty att = (case att_mimeType att of None \<Rightarrow> [] | Some m \<Rightarrow> m)"

subsection \<open>The strict first-audio path\<close>

text \<open>\<open>decodeAndValidateAudioAttachment\<close>; the argument \<open>c\<close> is \<open>att.content\<close>, which
  the caller has checked to be a string.\<close>

definition decodeAndValidateAudioAttachment ::
  "detector \<Rightarrow> ChatAttachment \<Rightarrow> string \<Rightarrow> nat \<Rightarrow> nat \<Rightarrow> error + FirstAudioResult option" where
  "decodeAndValidateAudioAttachment dm att c idx maxBytes =
     (let label = label_of att idx;
          b64 = normalizeBase64ForDecode c
      in if has_illegal_char b64 then Inl (InvalidEncoding label)
         else (let buf = base64_decode b64
               in if length buf \<le> 0 \<or> length buf > maxBytes
                  then Inl (SizeExceeded label (length buf) maxBytes)
                  else (case normalizeMime (att_mimeType att) of
                          Some m \<Rightarrow>
                            if \<not> isAudioMime (Some m) then Inr None
                            else Inr (Some \<lparr>buffer = buf, audio_mimeType = m\<rparr>)
                        | None \<Rightarrow>
                            (case dm buf of
                               Rejected \<Rightarrow> Inl DetectorRejected
                             | Detected m \<Rightarrow>
                                 if \<not> isAudioMime (Some m) then Inr None
                                 else Inr (Some \<lparr>buffer = buf, audio_mimeType = m\<rparr>)
                             | Undetected \<Rightarrow>
                                 Inr (Some \<lparr>buffer = buf,
                                             audio_mimeType = ''audio/octet-stream''\<rparr>)))))"

text \<open>The body of the loop of \<open>getFirstAudioAttachment\<close> for one attachment with string
  content \<open>c\<close>: \<open>Inl\<close> is a throw, \<open>Inr (Some r)\<close> is \<open>return r\<close>, and \<open>Inr None\<close>
  falls through to the next iteration.\<close>

definition audio_candidate ::
  "detector \<Rightarrow> ChatAttachment \<Rightarrow> string \<Rightarrow> nat \<Rightarrow> nat \<Rightarrow> error + FirstAudioResult option" where
  "audio_candidate dm att c idx maxBytes =
     (let providedMime = normalizeMime (Some (mime_or_empty att));
          declared = (if providedMime \<noteq> None \<and> isAudioMime providedMime
                      then decodeAndValidateAudioAttachment dm att c idx maxBytes
                      else Inr None)
      in case declared of
           Inl e \<Rightarrow> Inl e
         | Inr (Some r) \<Rightarrow> Inr (Some r)
         | Inr None \<Rightarrow>
             (let sniffedMime = normalizeMime (sniffMimeFromBase64 dm c)
              in if sniffedMime \<noteq> None \<and> isAudioMime sniffedMime
                 then decodeAndValidateAudioAttachment dm att c idx maxBytes
                 else Inr None))"

text \<open>One iteration, with the guard \<open>if (!att || typeof att.content !== "string")
  continue\<close> in front.\<close>

definition audio_step ::
  "detector \<Rightarrow> nat \<Rightarrow> nat \<Rightarrow> ChatAttachment option \<Rightarrow> error + FirstAudioResult option" where
  "audio_step dm maxBytes idx a =
     (case a of
        None \<Rightarrow> Inr None
      | Some att \<Rightarrow>
          (case att_content att of
             NotString \<Rightarrow> Inr None
           | Str c \<Rightarrow> audio_candidate dm att c idx maxBytes))"

fun audio_loop ::
  "detector \<Rightarrow> nat \<Rightarrow> nat \<Rightarrow> ChatAttachment option list \<Rightarrow> error + FirstAudioResult option" where
  "audio_loop dm maxBytes idx [] = Inr None"
| "audio_loop dm maxBytes idx (a # rest) =
     (case audio_step dm maxBytes idx a of
        Inl e \<Rightarrow> Inl e
      | Inr (Some r) \<Rightarrow> Inr (Some r)
      | Inr None \<Rightarrow> audio_loop dm maxBytes (Suc idx) rest)"

definition getFirstAudioAttachment ::
  "detector \<Rightarrow> ChatAttachment option list option \<Rightarrow> nat \<Rightarrow> error + FirstAudioResult option" where
  "getFirstAudioAttachment dm attachments maxBytes =
     (case attachments of
        None \<Rightarrow> Inr None
      | Some atts \<Rightarrow> if atts = [] then Inr None else audio_loop dm maxBytes 0 atts)"

subsection \<open>The lenient multi-image path\<close>

text \<open>\<open>log?.warn(m)\<close>: the message reaches the sink when one is given.\<close>

definition warn :: "bool \<Rightarrow> string \<Rightarrow> string list" where
  "warn lg m = (if lg then [m] else [])"

text \<open>The second half of the body of the loop of \<open>parseMessageWithAttachments\<close>
  (from \<open>const isM4aAudio\<close> to \<open>images.push\<close>), reached by an attachment that passed
  validation: the image pushed (if any) and the warnings emitted.  Where \<open>the\<close> is
  applied, the branch condition has made sure that the value is defined.\<close>

definition classify_valid ::
  "bool \<Rightarrow> string \<Rightarrow> string \<Rightarrow> string \<Rightarrow> string option \<Rightarrow> string option
     \<Rightarrow> ChatImageContent option \<times> string list" where
  "classify_valid lg label mime b64 providedMime sniffedMime =
     (let sniffedIsAudio = isAudioMime sniffedMime;
          providedIsAudio = isAudioMime providedMime;
          isM4aAudio = (providedIsAudio \<and> sniffedMime = Some ''video/mp4'')
      in if sniffedMime \<noteq> None \<and> \<not> isImageMime sniffedMime then
           (None,
            if \<not> sniffedIsAudio \<and> \<not> isM4aAudio
            then warn lg (''attachment '' @ label @ '': detected non-image (''
                           @ the sniffedMime @ ''), dropping'')
            else [])
         else if sniffedMime = None \<and> \<not> isImageMime providedMime then
           (None,
            if \<not> providedIsAudio
            then warn lg (''attachment '' @ label
                           @ '': unable to detect image mime type, dropping'')
            else [])
         else
           (Some \<lparr>img_type = ''image'', img_data = b64,
                  img_mimeType =
                    (case sniffedMime of
                       Some sm \<Rightarrow> sm
                     | None \<Rightarrow> (case providedMime of Some pm \<Rightarrow> pm | None \<Rightarrow> mime))\<rparr>,
            if sniffedMime \<noteq> None \<and> providedMime \<noteq> None \<and> sniffedMime \<noteq> providedMime
            then warn lg (''attachment '' @ label @ '': mime mismatch (''
                           @ the providedMime @ '' -> '' @ the sniffedMime
                           @ ''), using sniffed'')
            else []))"

text \<open>The body of the loop of \<open>parseMessageWithAttachments\<close> for one attachment: a
  throw, or the image pushed (if any) together with the warnings emitted.  Every throw
  of the body comes before its first warning.\<close>

definition parse_step ::
  "detector \<Rightarrow> nat \<Rightarrow> bool \<Rightarrow> nat \<Rightarrow> ChatAttachment
     \<Rightarrow> error + (ChatImageContent option \<times> string list)" where
  "parse_step dm maxBytes lg idx att =
     (let mime = mime_or_empty att;
          label = label_of att idx
      in case att_content att of
           NotString \<Rightarrow> Inl (UnsupportedContentShape label)
         | Str c \<Rightarrow>
             (let b64 = normalizeBase64ForDecode c
              in if has_illegal_char b64 then Inl (InvalidEncoding label)
                 else (let sizeBytes = length (base64_decode b64)
                       in if sizeBytes \<le> 0 \<or> sizeBytes > maxBytes
                          then Inl (SizeExceeded label sizeBytes maxBytes)
                          else (let providedMime = normalizeMime (Some mime);
                                    sniffedMime = normalizeMime (sniffMimeFromBase64 dm b64)
                                in Inr (classify_valid lg label mime b64
                                          providedMime sniffedMime)))))"

text \<open>The loop threads the array \<open>images\<close> and the warnings received by the sink so
  far; a throw ends it, and the warnings emitted before the throw stay emitted.\<close>

fun parse_loop ::
  "detector \<Rightarrow> nat \<Rightarrow> bool \<Rightarrow> nat \<Rightarrow> ChatAttachment option list
     \<Rightarrow> ChatImageContent list \<Rightarrow> string list
     \<Rightarrow> string list \<times> (error + ChatImageContent list)" where
  "parse_loop dm maxBytes lg idx [] imgs ws = (ws, Inr imgs)"
| "parse_loop dm maxBytes lg idx (None # rest) imgs ws =
     parse_loop dm maxBytes lg (Suc idx) rest imgs ws"
| "parse_loop dm maxBytes lg idx (Some att # rest) imgs ws =
     (case parse_step dm maxBytes lg idx att of
        Inl e \<Rightarrow> (ws, Inl e)
      | Inr (img, w) \<Rightarrow>
          parse_loop dm maxBytes lg (Suc idx) rest
            (case img of None \<Rightarrow> imgs | Some i \<Rightarrow> imgs @ [i]) (ws @ w))"

text \<open>\<open>opts?.maxBytes ?? 5_000_000\<close> and \<open>opts?.log\<close>\<close>

definition parse_maxBytes :: "parse_opts option \<Rightarrow> nat" where
  "parse_maxBytes opts =
     (case opts of
        None \<Rightarrow> 5000000
      | Some opt \<Rightarrow> (case opt_maxBytes opt of None \<Rightarrow> 5000000 | Some n \<Rightarrow> n))"

definition parse_log :: "parse_opts option \<Rightarrow> bool" where
  "parse_log opts = (case opts of None \<Rightarrow> False | Some opt \<Rightarrow> opt_log opt)"

definition parseMessageWithAttachments ::
  "detector \<Rightarrow> string \<Rightarrow> ChatAttachment option list option \<Rightarrow> parse_opts option
     \<Rightarrow> string list \<times> (error + ParsedMessageWithImages)" where
  "parseMessageWithAttachments dm msg attachments opts =
     (let maxBytes = parse_maxBytes opts;
          lg = parse_log opts
      in case attachments of
           None \<Rightarrow> ([], Inr \<lparr>message = msg, images = []\<rparr>)
         | Some atts \<Rightarrow>
             if atts = [] then ([], Inr \<lparr>message = msg, images = []\<rparr>)
             else (case parse_loop dm maxBytes lg 0 atts [] [] of
                     (ws, Inl e) \<Rightarrow> (ws, Inl e)
                   | (ws, Inr imgs) \<Rightarrow> (ws, Inr \<lparr>message = msg, images = imgs\<rparr>)))"

subsection \<open>The legacy encoder\<close>

definition build_step :: "nat \<Rightarrow> nat \<Rightarrow> ChatAttachment \<Rightarrow> error + string" where
  "build_step maxBytes idx att =
     (let mime = mime_or_empty att;
          label = label_of att idx
      in case att_content att of
           NotString \<Rightarrow> Inl (UnsupportedContentShape label)
         | Str c \<Rightarrow>
             if \<not> startsWith mime ''image/'' then Inl (OnlyImageSupported label)
             else (let b64 = trim c
                   in if length b64 mod 4 \<noteq> 0 \<or> has_illegal_char b64
                      then Inl (InvalidEncoding label)
                      else (let sizeBytes = length (base64_decode b64)
                            in if sizeBytes \<le> 0 \<or> sizeBytes > maxBytes
                               then Inl (SizeExceeded label sizeBytes maxBytes)
                               else Inr (''!['' @ replace_ws_runs label @ ''](data:'' @ mime
                                         @ '';base64,'' @ c @ '')''))))"

fun build_loop ::
  "nat \<Rightarrow> nat \<Rightarrow> ChatAttachment option list \<Rightarrow> string list \<Rightarrow> error + string list" where
  "build_loop maxBytes idx [] blocks = Inr blocks"
| "build_loop maxBytes idx (None # rest) blocks = build_loop maxBytes (Suc idx) rest blocks"
| "build_loop maxBytes idx (Some att # rest) blocks =
     (case build_step maxBytes idx att of
        Inl e \<Rightarrow> Inl e
      | Inr block \<Rightarrow> build_loop maxBytes (Suc idx) rest (blocks @ [block]))"

definition blank_line :: string where
  "blank_line = [CHR 0x0A, CHR 0x0A]"

text \<open>\<open>opts?.maxBytes ?? 2_000_000\<close>; the options of the legacy encoder hold nothing
  but the ceiling.\<close>

definition build_maxBytes :: "nat option \<Rightarrow> nat" where
  "build_maxBytes opt_max = (case opt_max of None \<Rightarrow> 2000000 | Some n \<Rightarrow> n)"

definition buildMessageWithAttachments ::
  "string \<Rightarrow> ChatAttachment option list option \<Rightarrow> nat option \<Rightarrow> error + string" where
  "buildMessageWithAttachments msg attachments opt_max =
     (let maxBytes = build_maxBytes opt_max
      in case attachments of
           None \<Rightarrow> Inr msg
         | Some atts \<Rightarrow>
             if atts = [] then Inr msg
             else (case build_loop maxBytes 0 atts [] of
                     Inl e \<Rightarrow> Inl e
                   | Inr blocks \<Rightarrow>
                       if blocks = [] then Inr msg
                       else Inr (msg @ (if length (trim msg) > 0 then blank_line else [])
                                 @ join blank_line blocks)))"

subsection \<open>A sample detector and the vocabulary of the specification\<close>

text \<open>
  Modelled from the spec: \<open>detectMime\<close> (\<open>../media/mime.js\<close>) is missing from the
  sources; the specification only says that it runs magic-byte signature detection.
  The theorems below hold for every detector \<open>dm\<close>.  This instance, which knows the
  signatures of JPEG, PNG, ID3-tagged MPEG audio and the MPEG-4 container, serves the
  concrete examples only.
\<close>

definition sample_detectMime :: detector where
  "sample_detectMime b =
     (if take 3 b = [0xFF, 0xD8, 0xFF] then Detected ''image/jpeg''
      else if take 8 b = [0x89, 0x50, 0x4E, 0x47, 0x0D, 0x0A, 0x1A, 0x0A] then Detected ''image/png''
      else if take 3 b = [0x49, 0x44, 0x33] then Detected ''audio/mpeg''
      else if take 4 (drop 4 b) = [0x66, 0x74, 0x79, 0x70] then Detected ''video/mp4''
      else Undetected)"

text \<open>Canonical base64 in the words of the specification: standard alphabet, correctly
  padded (at most two \<open>=\<close>, at the end, and a length that is a multiple of four), no data
  URL prefix and no surrounding white space (both excluded by the alphabet).\<close>

definition canonical_base64 :: "string \<Rightarrow> bool" where
  "canonical_base64 s =
     (let body = takeWhile (\<lambda>c. c \<noteq> CHR ''='') s;
          pad = dropWhile (\<lambda>c. c \<noteq> CHR ''='') s
      in (\<forall>c \<in> set body. is_b64_char c)
         \<and> (pad = [] \<or> pad = ''='' \<or> pad = ''=='')
         \<and> length s mod 4 = 0)"

text \<open>The categories of the classifier in the words of the specification (section 4.4):
  a sniffed type is authoritative, except that a declared audio type with the sniffed
  MPEG-4 container type is audio; without a sniffed type the declared type is trusted;
  with neither the category is \<open>Other\<close>.\<close>

datatype category = Image | Audio | Other

definition category_of_mime :: "string option \<Rightarrow> category" where
  "category_of_mime m =
     (if isImageMime m then Image else if isAudioMime m then Audio else Other)"

definition spec_category :: "string option \<Rightarrow> string option \<Rightarrow> category" where
  "spec_category declared sniffed =
     (case sniffed of
        Some sm \<Rightarrow>
          if isAudioMime declared \<and> sm = ''video/mp4'' then Audio
          else category_of_mime (Some sm)
      | None \<Rightarrow> category_of_mime declared)"

text \<open>The attachments of a list that are present (not \<open>null\<close>), the text of an
  attachment's content, and the category of an attachment under a detector.\<close>

definition present :: "ChatAttachment option list \<Rightarrow> ChatAttachment list" where
  "present atts = List.map_filter id atts"

definition content_text :: "ChatAttachment \<Rightarrow> string" where
  "content_text att = (case att_content att of Str c \<Rightarrow> c | NotString \<Rightarrow> [])"

definition attachment_category :: "detector \<Rightarrow> ChatAttachment \<Rightarrow> category" where
  "attachment_category dm att =
     spec_category (normalizeMime (att_mimeType att))
       (normalizeMime (sniffMimeFromBase64 dm (content_text att)))"

text \<open>
  The strict first-audio path in the words of the specification (sections 4.3 and 4.6).
  Validation normalizes the content, rejects text outside the base64 alphabet, decodes,
  and rejects a decoded length of zero or above the ceiling.
\<close>

definition spec_validate :: "string \<Rightarrow> nat \<Rightarrow> string \<Rightarrow> error + byte list" where
  "spec_validate label maxBytes c =
     (let b64 = normalizeBase64ForDecode c
      in if has_illegal_char b64 then Inl (InvalidEncoding label)
         else if length (base64_decode b64) = 0 \<or> maxBytes < length (base64_decode b64)
         then Inl (SizeExceeded label (length (base64_decode b64)) maxBytes)
         else Inr (base64_decode b64))"

text \<open>
  What the scan does with one attachment: it passes it over, selects it with its decoded
  buffer, or fails.  A missing attachment, a content that is not a string, and an
  attachment whose declared and sniffed types are both not audio are passed over.  An
  attachment with a declared audio type is validated and selected.  An attachment without
  a declared type whose sniffed type is audio is validated; it is selected when detection
  on the decoded buffer gives an audio type or nothing, and passed over when it gives
  another type.  Two cases are left open (\<open>None\<close>): a sniffed audio attachment with a
  declared type that is not audio, and a detection result that is not a normalized MIME
  string.
\<close>

datatype disposition = PassedOver | Selected "byte list" | Failed error

definition spec_disposition ::
  "detector \<Rightarrow> nat \<Rightarrow> nat \<Rightarrow> ChatAttachment option \<Rightarrow> disposition option" where
  "spec_disposition dm maxBytes idx a =
     (case a of
        None \<Rightarrow> Some PassedOver
      | Some att \<Rightarrow>
          (case att_content att of
             NotString \<Rightarrow> Some PassedOver
           | Str c \<Rightarrow>
               if isAudioMime (normalizeMime (att_mimeType att)) then
                 (case spec_validate (label_of att idx) maxBytes c of
                    Inl e \<Rightarrow> Some (Failed e)
                  | Inr buf \<Rightarrow> Some (Selected buf))
               else if \<not> isAudioMime (normalizeMime (sniffMimeFromBase64 dm c)) then
                 Some PassedOver
               else if normalizeMime (att_mimeType att) \<noteq> None then None
               else
                 (case spec_validate (label_of att idx) maxBytes c of
                    Inl e \<Rightarrow> Some (Failed e)
                  | Inr buf \<Rightarrow>
                      (case dm buf of
                         Undetected \<Rightarrow> Some (Selected buf)
                       | Rejected \<Rightarrow> Some (Failed DetectorRejected)
                       | Detected m \<Rightarrow>
                           if normalizeMime (Some m) \<noteq> Some m then None
                           else if isAudioMime (Some m) then Some (Selected buf)
                           else Some PassedOver))))"

text \<open>A result of the code agrees with a disposition.\<close>

definition agrees :: "disposition \<Rightarrow> error + FirstAudioResult option \<Rightarrow> bool" where
  "agrees d res =
     (case d of
        PassedOver \<Rightarrow> res = Inr None
      | Selected buf \<Rightarrow> (case res of Inr (Some r) \<Rightarrow> buffer r = buf | _ \<Rightarrow> False)
      | Failed e \<Rightarrow> res = Inl e)"

text \<open>A resolved MIME string is well formed when it is lower case and carries no
  parameter suffix.\<close>

definition lowercase_parameter_free :: "string \<Rightarrow> bool" where
  "lowercase_parameter_free m = (toLowerCase m = m \<and> CHR '';'' \<notin> set m)"

subsection \<open>Example attachments\<close>

text \<open>Attachments without kind tag and file name, used in the concrete examples; their
  label is \<open>attachment-n\<close>.\<close>

definition attachment :: "string option \<Rightarrow> content \<Rightarrow> ChatAttachment" where
  "attachment m c = \<lparr>att_type = None, att_mimeType = m, att_fileName = None, att_content = c\<rparr>"

text \<open>\<open>/9j/4AAQ\<close> is the base64 text of the JPEG signature bytes FF D8 FF E0 00 10,
  \<open>iVBORw0KGgo=\<close> of the PNG signature, \<open>SUQzAwAA\<close> and \<open>SUQzBAAA\<close> of ID3 headers,
  \<open>AAAAGGZ0eXBN\<close> of the head of an MPEG-4 container, \<open>T2dnUwAC\<close> of an Ogg page
  header and \<open>SGVsbG8h\<close> of plain text.\<close>

definition ex_jpeg :: ChatAttachment where
  "ex_jpeg = attachment (Some ''image/jpeg'') (Str ''/9j/4AAQ'')"

definition ex_png :: ChatAttachment where
  "ex_png = attachment (Some ''image/png'') (Str ''iVBORw0KGgo='')"

definition ex_audio_X :: ChatAttachment where
  "ex_audio_X = attachment (Some ''audio/mpeg'') (Str ''SUQzAwAA'')"

definition ex_audio_Y :: ChatAttachment where
  "ex_audio_Y = attachment (Some ''audio/mpeg'') (Str ''SUQzBAAA'')"

definition ex_audio_illegal :: ChatAttachment where
  "ex_audio_illegal = attachment (Some ''audio/mpeg'') (Str ''SUQz!wAA'')"

definition ex_text :: ChatAttachment where
  "ex_text = attachment (Some ''text/plain'') (Str ''SGVsbG8h'')"

definition ex_m4a :: ChatAttachment where
  "ex_m4a = attachment (Some ''audio/m4a'') (Str ''AAAAGGZ0eXBN'')"

definition ex_jpeg_declared_png :: ChatAttachment where
  "ex_jpeg_declared_png =
     \<lparr>att_type = None, att_mimeType = Some ''image/png'', att_fileName = Some ''photo.png'',
      att_content = Str ''/9j/4AAQ''\<rparr>"

definition ex_audio_declared_binary :: ChatAttachment where
  "ex_audio_declared_binary = attachment (Some ''application/octet-stream'') (Str ''SUQzAwAA'')"

definition ex_audio_undeclared :: ChatAttachment where
  "ex_audio_undeclared = attachment None (Str ''SUQzAwAA'')"

definition ex_not_string :: ChatAttachment where
  "ex_not_string = attachment (Some ''audio/mpeg'') NotString"

definition ex_png_unpadded :: ChatAttachment where
  "ex_png_unpadded = attachment (Some ''image/png'') (Str ''iVBORw0KGgo'')"

definition ex_jpeg_url_safe :: ChatAttachment where
  "ex_jpeg_url_safe = attachment (Some ''image/jpeg'') (Str ''_9j_4AAQ'')"

definition ex_three_bytes :: ChatAttachment where
  "ex_three_bytes = attachment (Some ''image/png'') (Str ''AAAA'')"

definition ex_empty :: ChatAttachment where
  "ex_empty = attachment (Some ''image/png'') (Str [])"

definition ex_ogg_undeclared :: ChatAttachment where
  "ex_ogg_undeclared = attachment None (Str ''T2dnUwAC'')"

text \<open>Options with a ceiling of 1000 bytes and a warning sink.\<close>

definition ex_opts :: parse_opts where
  "ex_opts = \<lparr>opt_maxBytes = Some 1000, opt_log = True\<rparr>"

text \<open>A detector that reports Ogg data the way signature libraries report Opus audio:
  with a codec parameter.\<close>

definition opus_detectMime :: detector where
  "opus_detectMime b =
     (if take 4 b = [0x4F, 0x67, 0x67, 0x53] then Detected ''audio/ogg; codecs=opus''
      else Undetected)"

section \<open>Properties\<close>

subsection \<open>Characters and the normalizer\<close>

lemma char_eq_code: "c = d \<longleftrightarrow> (of_char c :: nat) = of_char d"
  by simp

lemma b64_code: "is_b64_char c \<longleftrightarrow> (let n = of_char c :: nat in (65 \<le> n \<and> n \<le> 90) \<or> (97 \<le> n \<and> n \<le> 122) \<or> (48 \<le> n \<and> n \<le> 57) \<or> n = 43 \<or> n = 47 \<or> n = 61)"
  unfolding is_b64_char_def charCode_def Let_def
  by (simp add: char_eq_code[of c])

lemma ws_code: "is_ws c \<longleftrightarrow> (of_char c :: nat) \<in> {9, 10, 11, 12, 13, 32, 160}"
  by (simp add: is_ws_def charCode_def)

lemma b64_not_ws: "is_b64_char c \<Longrightarrow> \<not> is_ws c"
  unfolding b64_code ws_code Let_def by auto

lemma dropWhile_none: "\<forall>c \<in> set s. \<not> P c \<Longrightarrow> dropWhile P s = s"
  by (cases s) simp_all

lemma trim_no_ws: "\<forall>c \<in> set s. \<not> is_ws c \<Longrightarrow> trim s = s"
  by (simp add: trim_def dropWhile_none)

lemma startsWith_mem: "startsWith s (p @ x # q) \<Longrightarrow> x \<in> set s"
proof -
  assume "startsWith s (p @ x # q)"
  then have "take (length (p @ x # q)) s = p @ x # q" by (simp add: startsWith_def)
  then have "x \<in> set (take (length (p @ x # q)) s)" by simp
  then show ?thesis by (rule in_set_takeD)
qed

lemma b64_no_prefix:
  assumes "\<forall>c \<in> set s. is_b64_char c"
  shows "match_data_url s = None"
proof -
  have "\<not> is_b64_char (CHR '':'')" by (simp add: b64_code)
  moreover have "startsWith s ''data:'' \<Longrightarrow> CHR '':'' \<in> set s"
    using startsWith_mem[of s "''data''" "CHR '':''" "[]"] by simp
  ultimately have "\<not> startsWith s ''data:''" using assms by blast
  then show ?thesis by (simp add: match_data_url_def)
qed

lemma b64_url_safe_id: "\<forall>c \<in> set s. is_b64_char c \<Longrightarrow> map url_safe_to_std s = s"
proof -
  assume a: "\<forall>c \<in> set s. is_b64_char c"
  have "\<not> is_b64_char (CHR ''-'')" "\<not> is_b64_char (CHR ''_'')" by (simp_all add: b64_code)
  then have "\<forall>c \<in> set s. url_safe_to_std c = c" using a by (auto simp: url_safe_to_std_def)
  then show ?thesis by (simp add: map_idI)
qed

lemma normalize_fixed:
  assumes "\<forall>c \<in> set s. is_b64_char c" "length s mod 4 = 0"
  shows "normalizeBase64ForDecode s = s"
proof -
  have t: "trim s = s" using assms(1) b64_not_ws by (simp add: trim_no_ws)
  have "stripDataUrlPrefix s = s" by (simp add: stripDataUrlPrefix_def t b64_no_prefix[OF assms(1)])
  then show ?thesis using t assms(2) b64_url_safe_id[OF assms(1)]
    by (simp add: normalizeBase64ForDecode_def)
qed

lemma canonical_unfold:
  assumes "canonical_base64 s"
  shows "\<forall>c \<in> set (takeWhile (\<lambda>c. c \<noteq> CHR ''='') s). is_b64_char c"
    and "dropWhile (\<lambda>c. c \<noteq> CHR ''='') s = [] \<or> dropWhile (\<lambda>c. c \<noteq> CHR ''='') s = ''=''
         \<or> dropWhile (\<lambda>c. c \<noteq> CHR ''='') s = ''==''"
    and "length s mod 4 = 0"
  using assms unfolding canonical_base64_def Let_def by blast+

lemma canonical_chars:
  assumes "canonical_base64 s"
  shows "\<forall>c \<in> set s. is_b64_char c"
proof
  fix c assume c: "c \<in> set s"
  let ?P = "\<lambda>c. c \<noteq> CHR ''=''"
  have "c \<in> set (takeWhile ?P s @ dropWhile ?P s)" using c by simp
  then have split: "c \<in> set (takeWhile ?P s) \<or> c \<in> set (dropWhile ?P s)"
    by (simp only: set_append Un_iff)
  have eq: "is_b64_char (CHR ''='')" by (simp add: b64_code)
  from split show "is_b64_char c"
  proof
    assume "c \<in> set (takeWhile ?P s)"
    with canonical_unfold(1)[OF assms] show ?thesis by blast
  next
    assume d: "c \<in> set (dropWhile ?P s)"
    from canonical_unfold(2)[OF assms] have "c = CHR ''=''"
    proof (elim disjE)
      assume e: "dropWhile ?P s = []"
      from d show ?thesis unfolding e by simp
    next
      assume e: "dropWhile ?P s = ''=''"
      from d show ?thesis unfolding e by simp
    next
      assume e: "dropWhile ?P s = ''==''"
      from d show ?thesis unfolding e by simp
    qed
    with eq show ?thesis by simp
  qed
qed

subsection \<open>Loops and the normalizer on legal text\<close>

lemma normalize_length: "length (normalizeBase64ForDecode c) mod 4 = 0"
proof -
  define s where "s = map url_safe_to_std (trim (stripDataUrlPrefix c))"
  have "length s mod 4 \<noteq> 0 \<Longrightarrow> (length s + (4 - length s mod 4)) mod 4 = 0"
    by presburger
  then show ?thesis
    unfolding normalizeBase64ForDecode_def Let_def s_def[symmetric] by simp
qed

lemma legal_chars: "\<not> has_illegal_char b \<Longrightarrow> \<forall>c \<in> set b. is_b64_char c"
  by (simp add: has_illegal_char_def)

lemma normalize_twice:
  assumes "\<not> has_illegal_char (normalizeBase64ForDecode c)"
  shows "normalizeBase64ForDecode (normalizeBase64ForDecode c) = normalizeBase64ForDecode c"
  using legal_chars[OF assms] normalize_length by (rule normalize_fixed)

lemma sniff_normalized:
  assumes "\<not> has_illegal_char (normalizeBase64ForDecode c)"
  shows "sniffMimeFromBase64 dm (normalizeBase64ForDecode c) = sniffMimeFromBase64 dm c"
  by (simp add: sniffMimeFromBase64_def normalize_twice[OF assms])

lemma normalizeMime_or_empty:
  "normalizeMime (Some (mime_or_empty att)) = normalizeMime (att_mimeType att)"
  by (simp add: mime_or_empty_def normalizeMime_def split: option.split)

lemma normalizeMime_nonempty: "normalizeMime m \<noteq> Some []"
  by (simp add: normalizeMime_def Let_def split: option.split)

lemma audio_loop_append:
  "audio_loop dm mb i (pre @ rest) =
     (case audio_loop dm mb i pre of
        Inr None \<Rightarrow> audio_loop dm mb (i + length pre) rest
      | r \<Rightarrow> r)"
proof (induction pre arbitrary: i)
  case Nil
  show ?case by simp
next
  case (Cons a pre)
  show ?case
    by (simp add: Cons.IH split: sum.split option.split)
qed

lemma parse_loop_acc:
  "parse_loop dm mb lg i atts imgs ws =
     (case parse_loop dm mb lg i atts [] [] of
        (w, Inl e) \<Rightarrow> (ws @ w, Inl e)
      | (w, Inr is) \<Rightarrow> (ws @ w, Inr (imgs @ is)))"
proof (induction atts arbitrary: i imgs ws)
  case Nil
  show ?case by simp
next
  case (Cons a atts)
  show ?case
  proof (cases a)
    case None
    then show ?thesis using Cons.IH[of "Suc i" imgs ws] by simp
  next
    case (Some att)
    show ?thesis
    proof (cases "parse_step dm mb lg i att")
      case (Inl e)
      then show ?thesis using Some by simp
    next
      case (Inr p)
      obtain img w where p: "p = (img, w)" by (cases p)
      let ?new = "(case img of None \<Rightarrow> [] | Some x \<Rightarrow> [x])"
      have l: "parse_loop dm mb lg i (a # atts) imgs ws
          = parse_loop dm mb lg (Suc i) atts (imgs @ ?new) (ws @ w)"
        using Some Inr p by (simp split: option.split)
      have r: "parse_loop dm mb lg i (a # atts) [] []
          = parse_loop dm mb lg (Suc i) atts ?new w"
        using Some Inr p by (simp split: option.split)
      have A: "parse_loop dm mb lg (Suc i) atts (imgs @ ?new) (ws @ w) =
          (case parse_loop dm mb lg (Suc i) atts [] [] of
             (w', Inl e) \<Rightarrow> ((ws @ w) @ w', Inl e)
           | (w', Inr is) \<Rightarrow> ((ws @ w) @ w', Inr ((imgs @ ?new) @ is)))"
        using Cons.IH[of "Suc i" "imgs @ ?new" "ws @ w"] .
      have B: "parse_loop dm mb lg (Suc i) atts ?new w =
          (case parse_loop dm mb lg (Suc i) atts [] [] of
             (w', Inl e) \<Rightarrow> (w @ w', Inl e)
           | (w', Inr is) \<Rightarrow> (w @ w', Inr (?new @ is)))"
        using Cons.IH[of "Suc i" ?new w] .
      show ?thesis
        unfolding l r A B by (simp split: prod.split sum.split)
    qed
  qed
qed

lemma parse_loop_append:
  "parse_loop dm mb lg i (pre @ rest) imgs ws =
     (case parse_loop dm mb lg i pre imgs ws of
        (w, Inl e) \<Rightarrow> (w, Inl e)
      | (w, Inr is) \<Rightarrow> parse_loop dm mb lg (i + length pre) rest is w)"
proof (induction pre arbitrary: i imgs ws)
  case Nil
  show ?case by simp
next
  case (Cons a pre)
  show ?case
  proof (cases a)
    case None
    then show ?thesis by (simp add: Cons.IH split: sum.split prod.split)
  next
    case (Some att)
    then show ?thesis by (simp add: Cons.IH split: sum.split prod.split)
  qed
qed

lemma build_loop_append:
  "build_loop mb i (pre @ rest) blocks =
     (case build_loop mb i pre blocks of
        Inl e \<Rightarrow> Inl e
      | Inr bs \<Rightarrow> build_loop mb (i + length pre) rest bs)"
proof (induction pre arbitrary: i blocks)
  case Nil
  show ?case by simp
next
  case (Cons a pre)
  show ?case
  proof (cases a)
    case None
    then show ?thesis by (simp add: Cons.IH split: sum.split)
  next
    case (Some att)
    then show ?thesis by (simp add: Cons.IH split: sum.split)
  qed
qed

subsection \<open>The scan of the strict path by index\<close>

lemma audio_loop_skip_all:
  "(\<forall>j<length atts. audio_step dm mb (i + j) (atts ! j) = Inr None)
     \<Longrightarrow> audio_loop dm mb i atts = Inr None"
proof (induction atts arbitrary: i)
  case Nil
  show ?case by simp
next
  case (Cons a atts)
  have h: "audio_step dm mb i a = Inr None" using Cons.prems[rule_format, of 0] by simp
  have "\<forall>j<length atts. audio_step dm mb (Suc i + j) (atts ! j) = Inr None"
  proof (intro allI impI)
    fix j assume "j < length atts"
    then show "audio_step dm mb (Suc i + j) (atts ! j) = Inr None"
      using Cons.prems[rule_format, of "Suc j"] by simp
  qed
  then have "audio_loop dm mb (Suc i) atts = Inr None" by (rule Cons.IH)
  with h show ?case by simp
qed

lemma audio_loop_first:
  assumes "k < length atts"
    and "\<forall>j<k. audio_step dm mb (i + j) (atts ! j) = Inr None"
    and "audio_step dm mb (i + k) (atts ! k) \<noteq> Inr None"
  shows "audio_loop dm mb i atts = audio_step dm mb (i + k) (atts ! k)"
proof -
  have split: "atts = take k atts @ atts ! k # drop (Suc k) atts"
    using assms(1) by (rule id_take_nth_drop)
  have len: "length (take k atts) = k" using assms(1) by simp
  have "\<forall>j<length (take k atts). audio_step dm mb (i + j) (take k atts ! j) = Inr None"
    using assms(2) len by simp
  then have pre: "audio_loop dm mb i (take k atts) = Inr None" by (rule audio_loop_skip_all)
  have "audio_loop dm mb i atts = audio_loop dm mb i (take k atts @ atts ! k # drop (Suc k) atts)"
    using split by simp
  also have "\<dots> = audio_loop dm mb (i + k) (atts ! k # drop (Suc k) atts)"
    by (simp only: audio_loop_append pre len) simp
  also have "\<dots> = audio_step dm mb (i + k) (atts ! k)"
    using assms(3) by (simp split: sum.split option.split)
  finally show ?thesis .
qed

lemma audio_loop_SomeD:
  "audio_loop dm mb i atts = Inr (Some r) \<Longrightarrow>
     \<exists>k<length atts. audio_step dm mb (i + k) (atts ! k) = Inr (Some r)
        \<and> (\<forall>j<k. audio_step dm mb (i + j) (atts ! j) = Inr None)"
proof (induction atts arbitrary: i)
  case Nil
  then show ?case by simp
next
  case (Cons a atts)
  show ?case
  proof (cases "audio_step dm mb i a = Inr None")
    case True
    with Cons.prems have "audio_loop dm mb (Suc i) atts = Inr (Some r)" by simp
    from Cons.IH[OF this] obtain k where k: "k < length atts"
      "audio_step dm mb (Suc i + k) (atts ! k) = Inr (Some r)"
      "\<forall>j<k. audio_step dm mb (Suc i + j) (atts ! j) = Inr None" by blast
    have "\<forall>j<Suc k. audio_step dm mb (i + j) ((a # atts) ! j) = Inr None"
    proof (intro allI impI)
      fix j assume j: "j < Suc k"
      show "audio_step dm mb (i + j) ((a # atts) ! j) = Inr None"
      proof (cases j)
        case 0
        then show ?thesis using True by simp
      next
        case (Suc j')
        then show ?thesis using k(3) j by simp
      qed
    qed
    moreover have "audio_step dm mb (i + Suc k) ((a # atts) ! Suc k) = Inr (Some r)"
      using k(2) by simp
    moreover have "Suc k < length (a # atts)" using k(1) by simp
    ultimately show ?thesis by blast
  next
    case False
    with Cons.prems have "audio_step dm mb i a = Inr (Some r)"
      by (simp split: sum.splits option.splits)
    then have "audio_step dm mb (i + 0) ((a # atts) ! 0) = Inr (Some r)
        \<and> (\<forall>j<0. audio_step dm mb (i + j) ((a # atts) ! j) = Inr None)" by simp
    moreover have "0 < length (a # atts)" by simp
    ultimately show ?thesis by blast
  qed
qed

subsection \<open>MIME normalization and the body of the strict loop\<close>

lemma lower_char_code:
  "of_char (lower_char c) = (let n = of_char c :: nat in
     if (65 \<le> n \<and> n \<le> 90) \<or> (192 \<le> n \<and> n \<le> 222 \<and> n \<noteq> 215) then n + 32 else n)"
  by (auto simp: lower_char_def charCode_def Let_def)

lemma lower_char_idem: "lower_char (lower_char c) = lower_char c"
  by (subst char_eq_code) (auto simp: lower_char_code Let_def)

lemma lower_char_semicolon: "lower_char c = CHR '';'' \<Longrightarrow> c = CHR '';''"
  by (subst char_eq_code, subst (asm) char_eq_code) (auto simp: lower_char_code Let_def split: if_splits)

lemma toLowerCase_idem: "toLowerCase (toLowerCase s) = toLowerCase s"
  by (simp add: toLowerCase_def lower_char_idem)

lemma set_trim: "set (trim s) \<subseteq> set s"
proof -
  have "set (dropWhile is_ws (rev (dropWhile is_ws s))) \<subseteq> set (rev (dropWhile is_ws s))"
    by (rule set_dropWhileD[THEN subsetI])
  also have "\<dots> \<subseteq> set s" using set_dropWhileD[of _ is_ws s] by auto
  finally show ?thesis by (simp add: trim_def)
qed

lemma normalizeMime_wf:
  assumes "normalizeMime x = Some m"
  shows "lowercase_parameter_free m"
proof -
  from assms obtain raw where m: "m = toLowerCase (trim (takeWhile (\<lambda>c. c \<noteq> CHR '';'') raw))"
    by (auto simp: normalizeMime_def Let_def split: option.splits if_splits)
  have "CHR '';'' \<notin> set (takeWhile (\<lambda>c. c \<noteq> CHR '';'') raw)"
    using set_takeWhileD by fastforce
  then have "CHR '';'' \<notin> set (trim (takeWhile (\<lambda>c. c \<noteq> CHR '';'') raw))"
    using set_trim by blast
  then have "CHR '';'' \<notin> set m"
  proof (rule contrapos_nn)
    assume "CHR '';'' \<in> set m"
    then obtain x where x: "x \<in> set (trim (takeWhile (\<lambda>c. c \<noteq> CHR '';'') raw))"
      and lx: "lower_char x = CHR '';''"
      unfolding m toLowerCase_def by (metis (no_types) imageE list.set_map)
    from lx have "x = CHR '';''" by (rule lower_char_semicolon)
    with x show "CHR '';'' \<in> set (trim (takeWhile (\<lambda>c. c \<noteq> CHR '';'') raw))" by simp
  qed
  then show ?thesis by (simp add: lowercase_parameter_free_def m toLowerCase_idem)
qed

lemma fallback_wf: "lowercase_parameter_free ''audio/octet-stream''"
  by code_simp

lemma isAudioMime_Some: "isAudioMime (Some m) = startsWith m ''audio/''"
  by (simp add: isAudioMime_def)

lemma dv_invalid:
  "has_illegal_char (normalizeBase64ForDecode c) \<Longrightarrow>
     decodeAndValidateAudioAttachment dm att c idx mb = Inl (InvalidEncoding (label_of att idx))"
  by (simp add: decodeAndValidateAudioAttachment_def)

lemma dv_size:
  assumes "\<not> has_illegal_char (normalizeBase64ForDecode c)"
    and "length (base64_decode (normalizeBase64ForDecode c)) = 0
         \<or> length (base64_decode (normalizeBase64ForDecode c)) > mb"
  shows "decodeAndValidateAudioAttachment dm att c idx mb =
     Inl (SizeExceeded (label_of att idx) (length (base64_decode (normalizeBase64ForDecode c))) mb)"
  using assms by (auto simp: decodeAndValidateAudioAttachment_def Let_def)

lemma dv_valid:
  assumes "\<not> has_illegal_char (normalizeBase64ForDecode c)"
    and "1 \<le> length (base64_decode (normalizeBase64ForDecode c))"
    and "length (base64_decode (normalizeBase64ForDecode c)) \<le> mb"
  shows "decodeAndValidateAudioAttachment dm att c idx mb =
     (let buf = base64_decode (normalizeBase64ForDecode c)
      in case normalizeMime (att_mimeType att) of
           Some m \<Rightarrow> if \<not> isAudioMime (Some m) then Inr None
                     else Inr (Some \<lparr>buffer = buf, audio_mimeType = m\<rparr>)
         | None \<Rightarrow>
             (case dm buf of
                Rejected \<Rightarrow> Inl DetectorRejected
              | Detected m \<Rightarrow> if \<not> isAudioMime (Some m) then Inr None
                              else Inr (Some \<lparr>buffer = buf, audio_mimeType = m\<rparr>)
              | Undetected \<Rightarrow> Inr (Some \<lparr>buffer = buf, audio_mimeType = ''audio/octet-stream''\<rparr>)))"
proof -
  have ne: "base64_decode (normalizeBase64ForDecode c) \<noteq> []" using assms(2) by auto
  show ?thesis using assms(1,3) ne by (simp add: decodeAndValidateAudioAttachment_def Let_def)
qed

lemma dv_result:
  assumes "decodeAndValidateAudioAttachment dm att c idx mb = Inr (Some r)"
  shows "buffer r = base64_decode (normalizeBase64ForDecode c)"
    and "1 \<le> length (buffer r)" and "length (buffer r) \<le> mb"
    and "startsWith (audio_mimeType r) ''audio/''"
    and "normalizeMime (att_mimeType att) = Some (audio_mimeType r)
         \<or> (normalizeMime (att_mimeType att) = None \<and> audio_mimeType r = ''audio/octet-stream'')
         \<or> (normalizeMime (att_mimeType att) = None \<and> dm (buffer r) = Detected (audio_mimeType r))"
proof -
  let ?buf = "base64_decode (normalizeBase64ForDecode c)"
  from assms have legal: "\<not> has_illegal_char (normalizeBase64ForDecode c)"
    by (auto simp: decodeAndValidateAudioAttachment_def Let_def split: if_splits)
  have sz: "1 \<le> length ?buf \<and> length ?buf \<le> mb"
  proof (rule ccontr)
    assume "\<not> (1 \<le> length ?buf \<and> length ?buf \<le> mb)"
    then have "length ?buf = 0 \<or> length ?buf > mb" by arith
    from dv_size[OF legal this, of dm att idx] assms show False by simp
  qed
  note v = dv_valid[OF legal sz[THEN conjunct1] sz[THEN conjunct2], of dm att idx]
  from assms have r: "buffer r = ?buf"
    unfolding v Let_def by (auto split: option.splits detect_result.splits if_splits)
  show "buffer r = ?buf" by (rule r)
  show "1 \<le> length (buffer r)" "length (buffer r) \<le> mb" using sz r by simp_all
  show "startsWith (audio_mimeType r) ''audio/''"
    using assms unfolding v Let_def
    by (auto simp: isAudioMime_Some startsWith_def split: option.splits detect_result.splits if_splits)
  show "normalizeMime (att_mimeType att) = Some (audio_mimeType r)
         \<or> (normalizeMime (att_mimeType att) = None \<and> audio_mimeType r = ''audio/octet-stream'')
         \<or> (normalizeMime (att_mimeType att) = None \<and> dm (buffer r) = Detected (audio_mimeType r))"
    using assms unfolding v Let_def
    by (auto split: option.splits detect_result.splits if_splits)
qed

lemma dv_declared_audio_not_skipped:
  assumes "isAudioMime (normalizeMime (att_mimeType att))"
  shows "decodeAndValidateAudioAttachment dm att c idx mb \<noteq> Inr None"
  using assms
  by (auto simp: decodeAndValidateAudioAttachment_def Let_def isAudioMime_def split: option.splits)

lemma candidate_declared_audio:
  assumes "isAudioMime (normalizeMime (att_mimeType att))"
  shows "audio_candidate dm att c idx mb = decodeAndValidateAudioAttachment dm att c idx mb"
proof -
  have p: "normalizeMime (att_mimeType att) \<noteq> None"
    using assms by (cases "normalizeMime (att_mimeType att)") (simp_all add: isAudioMime_def)
  show ?thesis
    using dv_declared_audio_not_skipped[OF assms, of dm c idx mb] assms p
    by (simp add: audio_candidate_def normalizeMime_or_empty Let_def split: sum.split option.split)
qed

lemma candidate_not_declared_audio:
  assumes "\<not> isAudioMime (normalizeMime (att_mimeType att))"
  shows "audio_candidate dm att c idx mb =
     (if isAudioMime (normalizeMime (sniffMimeFromBase64 dm c))
      then decodeAndValidateAudioAttachment dm att c idx mb else Inr None)"
  using assms
  by (auto simp: audio_candidate_def normalizeMime_or_empty Let_def isAudioMime_def split: option.splits)

lemma candidate_result:
  assumes "audio_candidate dm att c idx mb = Inr (Some r)"
  shows "decodeAndValidateAudioAttachment dm att c idx mb = Inr (Some r)"
proof (cases "isAudioMime (normalizeMime (att_mimeType att))")
  case True
  then show ?thesis using assms by (simp add: candidate_declared_audio)
next
  case False
  then show ?thesis using assms by (simp add: candidate_not_declared_audio split: if_splits)
qed

lemma audio_step_result:
  assumes "audio_step dm mb idx a = Inr (Some r)"
  shows "\<exists>att c. a = Some att \<and> att_content att = Str c
           \<and> decodeAndValidateAudioAttachment dm att c idx mb = Inr (Some r)"
  using assms candidate_result
  by (auto simp: audio_step_def split: option.splits content.splits)

subsection \<open>The bodies of the lenient and legacy loops\<close>

lemma parse_step_not_string:
  "att_content att = NotString \<Longrightarrow>
     parse_step dm mb lg idx att = Inl (UnsupportedContentShape (label_of att idx))"
  by (simp add: parse_step_def)

lemma parse_step_invalid:
  "att_content att = Str c \<Longrightarrow> has_illegal_char (normalizeBase64ForDecode c) \<Longrightarrow>
     parse_step dm mb lg idx att = Inl (InvalidEncoding (label_of att idx))"
  by (simp add: parse_step_def)

lemma parse_step_size:
  assumes "att_content att = Str c"
    and "\<not> has_illegal_char (normalizeBase64ForDecode c)"
    and "length (base64_decode (normalizeBase64ForDecode c)) = 0
         \<or> length (base64_decode (normalizeBase64ForDecode c)) > mb"
  shows "parse_step dm mb lg idx att =
     Inl (SizeExceeded (label_of att idx) (length (base64_decode (normalizeBase64ForDecode c))) mb)"
  using assms by (auto simp: parse_step_def Let_def)

lemma parse_step_valid:
  assumes "att_content att = Str c"
    and "\<not> has_illegal_char (normalizeBase64ForDecode c)"
    and "1 \<le> length (base64_decode (normalizeBase64ForDecode c))"
    and "length (base64_decode (normalizeBase64ForDecode c)) \<le> mb"
  shows "parse_step dm mb lg idx att =
     Inr (classify_valid lg (label_of att idx) (mime_or_empty att) (normalizeBase64ForDecode c)
            (normalizeMime (att_mimeType att)) (normalizeMime (sniffMimeFromBase64 dm c)))"
proof -
  have ne: "base64_decode (normalizeBase64ForDecode c) \<noteq> []" using assms(3) by auto
  show ?thesis
    using assms(1,2,4) ne
    by (simp add: parse_step_def Let_def sniff_normalized normalizeMime_or_empty)
qed

lemma parse_step_InrD:
  assumes "parse_step dm mb lg idx att = Inr p"
  shows "\<exists>c. att_content att = Str c \<and> \<not> has_illegal_char (normalizeBase64ForDecode c)
           \<and> 1 \<le> length (base64_decode (normalizeBase64ForDecode c))
           \<and> length (base64_decode (normalizeBase64ForDecode c)) \<le> mb"
proof (cases "att_content att")
  case NotString
  with assms show ?thesis by (simp add: parse_step_not_string)
next
  case (Str c)
  have legal: "\<not> has_illegal_char (normalizeBase64ForDecode c)"
    using assms parse_step_invalid[OF Str, of dm mb lg idx] by auto
  have "\<not> (length (base64_decode (normalizeBase64ForDecode c)) = 0
         \<or> length (base64_decode (normalizeBase64ForDecode c)) > mb)"
    using assms parse_step_size[OF Str legal, of mb dm lg idx] by auto
  then have "1 \<le> length (base64_decode (normalizeBase64ForDecode c))
           \<and> length (base64_decode (normalizeBase64ForDecode c)) \<le> mb" by arith
  with Str legal show ?thesis by blast
qed

lemma build_step_not_string:
  "att_content att = NotString \<Longrightarrow>
     build_step mb idx att = Inl (UnsupportedContentShape (label_of att idx))"
  by (simp add: build_step_def)

lemma parse_loop_reaches:
  assumes "snd (parse_loop dm mb lg 0 pre [] []) = Inr imgs"
    and "parse_step dm mb lg (length pre) att = Inl e"
  shows "snd (parse_loop dm mb lg 0 (pre @ Some att # post) [] []) = Inl e"
proof -
  obtain w where "parse_loop dm mb lg 0 pre [] [] = (w, Inr imgs)"
    using assms(1) by (cases "parse_loop dm mb lg 0 pre [] []") simp
  then show ?thesis using assms(2) by (simp add: parse_loop_append)
qed

lemma parse_loop_fails:
  assumes "parse_step dm mb lg (length pre) att = Inl e"
  shows "\<exists>e'. snd (parse_loop dm mb lg 0 (pre @ Some att # post) [] []) = Inl e'"
proof (cases "parse_loop dm mb lg 0 pre [] []")
  case (Pair w r)
  then show ?thesis using assms by (cases r) (simp_all add: parse_loop_append)
qed

lemma parse_call_loop:
  "atts \<noteq> [] \<Longrightarrow>
   snd (parseMessageWithAttachments dm msg (Some atts) opts) =
     (case snd (parse_loop dm (parse_maxBytes opts) (parse_log opts) 0 atts [] []) of
        Inl e \<Rightarrow> Inl e
      | Inr imgs \<Rightarrow> Inr \<lparr>message = msg, images = imgs\<rparr>)"
  by (simp add: parseMessageWithAttachments_def Let_def split: prod.split sum.split)

lemma build_loop_reaches:
  assumes "build_loop mb 0 pre [] = Inr blocks"
    and "build_step mb (length pre) att = Inl e"
  shows "build_loop mb 0 (pre @ Some att # post) [] = Inl e"
  using assms by (simp add: build_loop_append)

lemma build_loop_fails:
  assumes "build_step mb (length pre) att = Inl e"
  shows "\<exists>e'. build_loop mb 0 (pre @ Some att # post) [] = Inl e'"
  using assms by (cases "build_loop mb 0 pre []") (simp_all add: build_loop_append)

lemma build_call_loop:
  "build_loop (build_maxBytes om) 0 atts [] = Inl e \<Longrightarrow>
   buildMessageWithAttachments msg (Some atts) om = Inl e"
  by (auto simp: buildMessageWithAttachments_def Let_def)

lemma audio_call_loop:
  "atts \<noteq> [] \<Longrightarrow> getFirstAudioAttachment dm (Some atts) mb = audio_loop dm mb 0 atts"
  by (simp add: getFirstAudioAttachment_def)

subsection \<open>Reaching an attachment\<close>

lemma mp4_not_image: "\<not> isImageMime (Some ''video/mp4'')"
  by (simp add: isImageMime_def startsWith_def)

lemma image_not_audio: "isImageMime (Some m) \<Longrightarrow> \<not> isAudioMime (Some m)"
  by (auto simp: isImageMime_def isAudioMime_def startsWith_def)

lemma parse_loop_step:
  "parse_step dm mb lg idx att = Inr (img, w) \<Longrightarrow>
   parse_loop dm mb lg idx (Some att # rest) imgs ws =
     parse_loop dm mb lg (Suc idx) rest
       (case img of None \<Rightarrow> imgs | Some i \<Rightarrow> imgs @ [i]) (ws @ w)"
  by simp

lemma audio_loop_reaches:
  assumes "audio_loop dm mb 0 pre = Inr None"
    and "audio_step dm mb (length pre) a = Inr (Some r)"
  shows "getFirstAudioAttachment dm (Some (pre @ a # post)) mb = Inr (Some r)"
  using assms by (simp add: audio_call_loop audio_loop_append)

lemma audio_loop_reaches_error:
  assumes "audio_loop dm mb 0 pre = Inr None"
    and "audio_step dm mb (length pre) a = Inl e"
  shows "getFirstAudioAttachment dm (Some (pre @ a # post)) mb = Inl e"
  using assms by (simp add: audio_call_loop audio_loop_append)

lemma audio_step_Str:
  "att_content att = Str c \<Longrightarrow>
   audio_step dm mb idx (Some att) = audio_candidate dm att c idx mb"
  by (simp add: audio_step_def)

lemma parse_call_reaches:
  assumes "snd (parse_loop dm (parse_maxBytes opts) (parse_log opts) 0 pre [] []) = Inr imgs"
    and "parse_step dm (parse_maxBytes opts) (parse_log opts) (length pre) att = Inl e"
  shows "snd (parseMessageWithAttachments dm msg (Some (pre @ Some att # post)) opts) = Inl e"
proof -
  have ne: "pre @ Some att # post \<noteq> []" by simp
  show ?thesis using parse_loop_reaches[OF assms, of post] by (simp add: parse_call_loop[OF ne])
qed

lemma dv_errors:
  assumes "\<not> has_illegal_char (normalizeBase64ForDecode c)"
    and "1 \<le> length (base64_decode (normalizeBase64ForDecode c))"
    and "length (base64_decode (normalizeBase64ForDecode c)) \<le> mb"
    and "decodeAndValidateAudioAttachment dm att c idx mb = Inl e"
  shows "e = DetectorRejected"
  using assms(4) unfolding dv_valid[OF assms(1-3)] Let_def
  by (auto split: option.splits detect_result.splits if_splits)

lemma candidate_cases:
  "audio_candidate dm att c idx mb = decodeAndValidateAudioAttachment dm att c idx mb
   \<or> audio_candidate dm att c idx mb = Inr None"
  by (cases "isAudioMime (normalizeMime (att_mimeType att))")
     (simp_all add: candidate_declared_audio candidate_not_declared_audio)

lemma candidate_is_validated:
  assumes "isAudioMime (normalizeMime (att_mimeType att))
           \<or> isAudioMime (normalizeMime (sniffMimeFromBase64 dm c))"
  shows "audio_candidate dm att c idx mb = decodeAndValidateAudioAttachment dm att c idx mb"
  using assms
  by (cases "isAudioMime (normalizeMime (att_mimeType att))")
     (simp_all add: candidate_declared_audio candidate_not_declared_audio)

lemma trimmed_legal_normalize:
  assumes "\<not> has_illegal_char (trim c)" and "length (trim c) mod 4 = 0"
  shows "normalizeBase64ForDecode c = trim c"
proof -
  note ch = legal_chars[OF assms(1)]
  have tt: "trim (trim c) = trim c" using ch b64_not_ws by (simp add: trim_no_ws)
  have "stripDataUrlPrefix c = trim c"
    by (simp add: stripDataUrlPrefix_def b64_no_prefix[OF ch])
  then show ?thesis
    using tt assms(2) b64_url_safe_id[OF ch] by (simp add: normalizeBase64ForDecode_def)
qed

lemma url_safe_illegal:
  "CHR ''-'' \<in> set s \<or> CHR ''_'' \<in> set s \<Longrightarrow> has_illegal_char s"
proof -
  have "\<not> is_b64_char (CHR ''-'')" "\<not> is_b64_char (CHR ''_'')" by (simp_all add: b64_code)
  then show "CHR ''-'' \<in> set s \<or> CHR ''_'' \<in> set s \<Longrightarrow> has_illegal_char s"
    unfolding has_illegal_char_def by blast
qed

lemma build_step_image:
  assumes "att_content att = Str c" and "startsWith (mime_or_empty att) ''image/''"
  shows "build_step mb idx att =
     (if length (trim c) mod 4 \<noteq> 0 \<or> has_illegal_char (trim c)
      then Inl (InvalidEncoding (label_of att idx))
      else if length (base64_decode (trim c)) = 0 \<or> length (base64_decode (trim c)) > mb
      then Inl (SizeExceeded (label_of att idx) (length (base64_decode (trim c))) mb)
      else Inr (''!['' @ replace_ws_runs (label_of att idx) @ ''](data:'' @ mime_or_empty att
                @ '';base64,'' @ c @ '')''))"
  using assms by (simp add: build_step_def Let_def)

subsection \<open>Classification in the lenient loop\<close>

lemma classify_category:
  "fst (classify_valid lg label mime b64 pm sm) =
     (if spec_category pm sm = Image
      then Some \<lparr>img_type = ''image'', img_data = b64,
                 img_mimeType = (case sm of
                                   Some s \<Rightarrow> s
                                 | None \<Rightarrow> (case pm of Some p \<Rightarrow> p | None \<Rightarrow> mime))\<rparr>
      else None)"
proof (cases sm)
  case None
  then show ?thesis
    by (simp add: classify_valid_def spec_category_def category_of_mime_def Let_def)
next
  case (Some s)
  have "isImageMime (Some s) \<Longrightarrow> s \<noteq> ''video/mp4''" using mp4_not_image by auto
  then show ?thesis using Some
    by (auto simp: classify_valid_def spec_category_def category_of_mime_def Let_def)
qed

lemma parse_step_category:
  assumes "parse_step dm mb lg idx att = Inr (img, w)"
  shows "case img of
           None \<Rightarrow> attachment_category dm att \<noteq> Image
         | Some i \<Rightarrow> attachment_category dm att = Image
                      \<and> img_data i = normalizeBase64ForDecode (content_text att)
                      \<and> img_type i = ''image''"
proof -
  from parse_step_InrD[OF assms] obtain c where c: "att_content att = Str c"
    and v: "\<not> has_illegal_char (normalizeBase64ForDecode c)"
      "1 \<le> length (base64_decode (normalizeBase64ForDecode c))"
      "length (base64_decode (normalizeBase64ForDecode c)) \<le> mb" by blast
  have ct: "content_text att = c" using c by (simp add: content_text_def)
  from assms have "img = fst (classify_valid lg (label_of att idx) (mime_or_empty att)
            (normalizeBase64ForDecode c) (normalizeMime (att_mimeType att))
            (normalizeMime (sniffMimeFromBase64 dm c)))"
    unfolding parse_step_valid[OF c v] by auto
  then show ?thesis
    unfolding classify_category by (simp add: attachment_category_def ct)
qed

lemma present_simps:
  "present [] = []" "present (None # atts) = present atts"
  "present (Some a # atts) = a # present atts"
  by (simp_all add: present_def List.map_filter_simps)

lemma parse_loop_images:
  "parse_loop dm mb lg i atts [] [] = (w, Inr is) \<Longrightarrow>
     map img_data is = map (\<lambda>a. normalizeBase64ForDecode (content_text a))
                         (filter (\<lambda>a. attachment_category dm a = Image) (present atts))
     \<and> (\<forall>x \<in> set is. img_type x = ''image'')"
proof (induction atts arbitrary: i w "is")
  case Nil
  then show ?case by (simp add: present_simps)
next
  case (Cons a atts)
  show ?case
  proof (cases a)
    case None
    with Cons.prems have "parse_loop dm mb lg (Suc i) atts [] [] = (w, Inr is)" by simp
    from Cons.IH[OF this] show ?thesis using None by (simp add: present_simps)
  next
    case (Some att)
    show ?thesis
    proof (cases "parse_step dm mb lg i att")
      case (Inl e)
      with Cons.prems Some show ?thesis by simp
    next
      case (Inr p)
      obtain img w0 where p: "p = (img, w0)" by (cases p)
      let ?new = "(case img of None \<Rightarrow> [] | Some x \<Rightarrow> [x])"
      have "parse_loop dm mb lg i (a # atts) [] [] = parse_loop dm mb lg (Suc i) atts ?new w0"
        using Some Inr p by (simp split: option.split)
      also have "\<dots> = (case parse_loop dm mb lg (Suc i) atts [] [] of
                          (w', Inl e) \<Rightarrow> (w0 @ w', Inl e)
                        | (w', Inr is') \<Rightarrow> (w0 @ w', Inr (?new @ is')))"
        by (rule parse_loop_acc)
      finally have eq: "(case parse_loop dm mb lg (Suc i) atts [] [] of
                          (w', Inl e) \<Rightarrow> (w0 @ w', Inl e)
                        | (w', Inr is') \<Rightarrow> (w0 @ w', Inr (?new @ is'))) = (w, Inr is)"
        using Cons.prems by simp
      then obtain w' is' where rest: "parse_loop dm mb lg (Suc i) atts [] [] = (w', Inr is')"
        and "is": "is = ?new @ is'"
        by (auto split: prod.splits sum.splits)
      note ih = Cons.IH[OF rest]
      note cat = parse_step_category[OF Inr[unfolded p]]
      show ?thesis
      proof (cases img)
        case None
        then show ?thesis using ih cat "is" Some by (simp add: present_simps)
      next
        case (Some x)
        then show ?thesis using ih cat "is" \<open>a = Some att\<close> by (simp add: present_simps)
      qed
    qed
  qed
qed

lemma first_audio_result_shape:
  assumes "getFirstAudioAttachment dm attachments mb = Inr (Some r)"
  shows "1 \<le> length (buffer r) \<and> length (buffer r) \<le> mb
         \<and> startsWith (audio_mimeType r) ''audio/''
         \<and> (lowercase_parameter_free (audio_mimeType r)
              \<or> dm (buffer r) = Detected (audio_mimeType r))"
proof -
  from assms obtain atts where "audio_loop dm mb 0 atts = Inr (Some r)"
    by (auto simp: getFirstAudioAttachment_def split: option.splits if_splits)
  from audio_loop_SomeD[OF this] obtain k where "audio_step dm mb (0 + k) (atts ! k) = Inr (Some r)"
    by blast
  from audio_step_result[OF this] obtain att c where
    dv: "decodeAndValidateAudioAttachment dm att c (0 + k) mb = Inr (Some r)" by blast
  note res = dv_result[OF dv]
  have "lowercase_parameter_free (audio_mimeType r) \<or> dm (buffer r) = Detected (audio_mimeType r)"
    using res(5) normalizeMime_wf[of "att_mimeType att" "audio_mimeType r"] fallback_wf by auto
  with res(2,3,4) show ?thesis by blast
qed

subsection \<open>The strict path against the wording of the specification\<close>

lemma spec_validate_Inl:
  assumes "spec_validate (label_of att idx) mb c = Inl e"
  shows "decodeAndValidateAudioAttachment dm att c idx mb = Inl e"
proof (cases "has_illegal_char (normalizeBase64ForDecode c)")
  case True
  then show ?thesis using assms by (simp add: spec_validate_def Let_def dv_invalid)
next
  case False
  then have bad: "length (base64_decode (normalizeBase64ForDecode c)) = 0
      \<or> mb < length (base64_decode (normalizeBase64ForDecode c))"
    and e: "e = SizeExceeded (label_of att idx) (length (base64_decode (normalizeBase64ForDecode c))) mb"
    using assms by (auto simp: spec_validate_def Let_def split: if_splits)
  show ?thesis unfolding e by (rule dv_size[OF False bad])
qed

lemma spec_validate_Inr:
  assumes "spec_validate label mb c = Inr buf"
  shows "\<not> has_illegal_char (normalizeBase64ForDecode c)"
    and "1 \<le> length (base64_decode (normalizeBase64ForDecode c))"
    and "length (base64_decode (normalizeBase64ForDecode c)) \<le> mb"
    and "buf = base64_decode (normalizeBase64ForDecode c)"
proof -
  from assms show l: "\<not> has_illegal_char (normalizeBase64ForDecode c)"
    by (auto simp: spec_validate_def Let_def split: if_splits)
  from assms l have "\<not> (length (base64_decode (normalizeBase64ForDecode c)) = 0
      \<or> mb < length (base64_decode (normalizeBase64ForDecode c)))"
    by (auto simp: spec_validate_def Let_def split: if_splits)
  then show "1 \<le> length (base64_decode (normalizeBase64ForDecode c))"
    and "length (base64_decode (normalizeBase64ForDecode c)) \<le> mb" by arith+
  from assms l show "buf = base64_decode (normalizeBase64ForDecode c)"
    by (auto simp: spec_validate_def Let_def split: if_splits)
qed

lemma audio_step_agrees:
  assumes "spec_disposition dm mb idx a = Some d"
  shows "agrees d (audio_step dm mb idx a)"
proof (cases a)
  case None
  then show ?thesis using assms by (simp add: spec_disposition_def audio_step_def agrees_def)
next
  case (Some att)
  show ?thesis
  proof (cases "att_content att")
    case NotString
    then show ?thesis
      using assms Some by (simp add: spec_disposition_def audio_step_def agrees_def)
  next
    case (Str c)
    have step: "audio_step dm mb idx a = audio_candidate dm att c idx mb"
      using Some by (simp add: audio_step_Str[OF Str])
    show ?thesis
    proof (cases "isAudioMime (normalizeMime (att_mimeType att))")
      case True
      then obtain pm where pm: "normalizeMime (att_mimeType att) = Some pm" "isAudioMime (Some pm)"
        by (cases "normalizeMime (att_mimeType att)") (simp_all add: isAudioMime_def)
      have cand: "audio_candidate dm att c idx mb = decodeAndValidateAudioAttachment dm att c idx mb"
        by (rule candidate_declared_audio[OF True])
      show ?thesis
      proof (cases "spec_validate (label_of att idx) mb c")
        case (Inl e)
        then have "d = Failed e"
          using assms Some Str True by (simp add: spec_disposition_def)
        then show ?thesis
          using spec_validate_Inl[OF Inl, of dm] by (simp add: agrees_def step cand)
      next
        case (Inr buf)
        then have d: "d = Selected buf"
          using assms Some Str True by (simp add: spec_disposition_def)
        note v = spec_validate_Inr[OF Inr]
        have "decodeAndValidateAudioAttachment dm att c idx mb
            = Inr (Some \<lparr>buffer = buf, audio_mimeType = pm\<rparr>)"
          unfolding dv_valid[OF v(1-3)] Let_def v(4)[symmetric] using pm by simp
        then show ?thesis by (simp add: agrees_def d step cand)
      qed
    next
      case False
      note cand = candidate_not_declared_audio[OF False, of dm c idx mb]
      show ?thesis
      proof (cases "isAudioMime (normalizeMime (sniffMimeFromBase64 dm c))")
        case nosniff: False
        then have "d = PassedOver"
          using assms Some Str False by (simp add: spec_disposition_def)
        then show ?thesis using nosniff by (simp add: agrees_def step cand)
      next
        case sniff: True
        then have undeclared: "normalizeMime (att_mimeType att) = None"
          using assms Some Str False by (simp add: spec_disposition_def split: if_splits)
        have cand': "audio_candidate dm att c idx mb
            = decodeAndValidateAudioAttachment dm att c idx mb"
          using cand sniff by simp
        show ?thesis
        proof (cases "spec_validate (label_of att idx) mb c")
          case (Inl e)
          then have "d = Failed e"
            using assms Some Str False sniff undeclared by (simp add: spec_disposition_def)
          then show ?thesis
            using spec_validate_Inl[OF Inl, of dm] by (simp add: agrees_def step cand')
        next
          case (Inr buf)
          note v = spec_validate_Inr[OF Inr]
          have dv: "decodeAndValidateAudioAttachment dm att c idx mb =
              (case dm buf of
                 Rejected \<Rightarrow> Inl DetectorRejected
               | Detected m \<Rightarrow> if \<not> isAudioMime (Some m) then Inr None
                               else Inr (Some \<lparr>buffer = buf, audio_mimeType = m\<rparr>)
               | Undetected \<Rightarrow> Inr (Some \<lparr>buffer = buf, audio_mimeType = ''audio/octet-stream''\<rparr>))"
            unfolding dv_valid[OF v(1-3)] Let_def v(4)[symmetric] using undeclared by simp
          have sd: "(case dm buf of
                         Undetected \<Rightarrow> Some (Selected buf)
                       | Rejected \<Rightarrow> Some (Failed DetectorRejected)
                       | Detected m \<Rightarrow>
                           if normalizeMime (Some m) \<noteq> Some m then None
                           else if isAudioMime (Some m) then Some (Selected buf)
                           else Some PassedOver) = Some d"
            using assms Some Str False sniff undeclared Inr by (simp add: spec_disposition_def)
          show ?thesis
          proof (cases "dm buf")
            case (Detected m)
            then show ?thesis
              using sd by (auto simp: agrees_def step cand' dv split: if_splits)
          next
            case Undetected
            then show ?thesis using sd by (auto simp: agrees_def step cand' dv)
          next
            case Rejected
            then show ?thesis using sd by (auto simp: agrees_def step cand' dv)
          qed
        qed
      qed
    qed
  qed
qed

lemma agrees_PassedOver: "agrees PassedOver res \<longleftrightarrow> res = Inr None"
  by (simp add: agrees_def)

lemma declared_non_audio_never_selected:
  assumes "att_content att = Str c"
    and "normalizeMime (att_mimeType att) = Some pm"
    and "\<not> isAudioMime (Some pm)"
  shows "audio_step dm mb idx (Some att) \<noteq> Inr (Some r)"
proof
  assume "audio_step dm mb idx (Some att) = Inr (Some r)"
  then have "audio_candidate dm att c idx mb = Inr (Some r)"
    by (simp add: audio_step_Str[OF assms(1)])
  then have dv: "decodeAndValidateAudioAttachment dm att c idx mb = Inr (Some r)"
    by (rule candidate_result)
  from dv_result(5)[OF dv] assms(2) have "audio_mimeType r = pm" by simp
  with dv_result(4)[OF dv] have "isAudioMime (Some pm)" by (simp add: isAudioMime_Some)
  with assms(3) show False by simp
qed

lemma number_text_small: "n < 1000000000000000000000 \<Longrightarrow> number_text n = Some (string_of_nat n)"
  by (simp add: number_text_def)

lemma size_message:
  assumes "n < 1000000000000000000000" and "mb < 1000000000000000000000"
  shows "\<exists>m. error_message (SizeExceeded label n mb) = Some m
           \<and> sublist (string_of_nat n) m \<and> sublist (string_of_nat mb) m"
proof -
  let ?m = "''attachment '' @ label @ '': exceeds size limit ('' @ string_of_nat n
              @ '' > '' @ string_of_nat mb @ '' bytes)''"
  have e: "error_message (SizeExceeded label n mb) = Some ?m"
    using assms by (simp add: number_text_small)
  have "?m = (''attachment '' @ label @ '': exceeds size limit ('') @ string_of_nat n
        @ ('' > '' @ string_of_nat mb @ '' bytes)'')" by simp
  then have s1: "sublist (string_of_nat n) ?m" unfolding sublist_def by blast
  have "?m = (''attachment '' @ label @ '': exceeds size limit ('' @ string_of_nat n @ '' > '')
        @ string_of_nat mb @ '' bytes)''" by simp
  then have s2: "sublist (string_of_nat mb) ?m" unfolding sublist_def by blast
  from e s1 s2 show ?thesis by blast
qed

lemma non_candidate_skipped:
  assumes "att_content att = Str c"
    and "\<not> isAudioMime (normalizeMime (att_mimeType att))"
    and "\<not> isAudioMime (normalizeMime (sniffMimeFromBase64 dm c))"
  shows "audio_step dm mb idx (Some att) = Inr None"
  using assms(3) by (simp add: audio_step_Str[OF assms(1)] candidate_not_declared_audio[OF assms(2)])

text \<open>An attachment without a declared type whose sniffed type is audio is returned when
  detection on the decoded buffer gives nothing or an audio type.\<close>

lemma sniffed_audio_selected:
  assumes "att_content att = Str c"
    and "normalizeMime (att_mimeType att) = None"
    and "\<not> has_illegal_char (normalizeBase64ForDecode c)"
    and "1 \<le> length (base64_decode (normalizeBase64ForDecode c))"
    and "length (base64_decode (normalizeBase64ForDecode c)) \<le> mb"
    and "isAudioMime (normalizeMime (sniffMimeFromBase64 dm c))"
    and "dm (base64_decode (normalizeBase64ForDecode c)) = Undetected
         \<or> (\<exists>m. dm (base64_decode (normalizeBase64ForDecode c)) = Detected m
                  \<and> isAudioMime (Some m))"
    and "audio_loop dm mb 0 pre = Inr None"
  shows "getFirstAudioAttachment dm (Some (pre @ Some att # post)) mb =
     Inr (Some \<lparr>buffer = base64_decode (normalizeBase64ForDecode c),
                  audio_mimeType =
                    (case dm (base64_decode (normalizeBase64ForDecode c)) of
                       Detected m \<Rightarrow> m
                     | Undetected \<Rightarrow> ''audio/octet-stream''
                     | Rejected \<Rightarrow> ''audio/octet-stream'')\<rparr>)"
proof -
  have na: "\<not> isAudioMime (normalizeMime (att_mimeType att))"
    using assms(2) by (simp add: isAudioMime_def)
  have "audio_step dm mb (length pre) (Some att)
      = decodeAndValidateAudioAttachment dm att c (length pre) mb"
    using assms(6) by (simp add: audio_step_Str[OF assms(1)] candidate_not_declared_audio[OF na])
  also have "\<dots> = Inr (Some \<lparr>buffer = base64_decode (normalizeBase64ForDecode c),
                  audio_mimeType =
                    (case dm (base64_decode (normalizeBase64ForDecode c)) of
                       Detected m \<Rightarrow> m
                     | Undetected \<Rightarrow> ''audio/octet-stream''
                     | Rejected \<Rightarrow> ''audio/octet-stream'')\<rparr>)"
    unfolding dv_valid[OF assms(3-5)] using assms(2,7) by auto
  finally show ?thesis by (rule audio_loop_reaches[OF assms(8)])
qed

text \<open>If the detector only returns normalized MIME strings, every result carries a
  normalized type.\<close>

lemma first_audio_result_shape_normalized_detector:
  assumes "getFirstAudioAttachment dm attachments mb = Inr (Some r)"
    and "\<And>b m. dm b = Detected m \<Longrightarrow> normalizeMime (Some m) = Some m"
  shows "1 \<le> length (buffer r) \<and> length (buffer r) \<le> mb
         \<and> startsWith (audio_mimeType r) ''audio/''
         \<and> lowercase_parameter_free (audio_mimeType r)"
proof -
  note s = first_audio_result_shape[OF assms(1)]
  from s have "lowercase_parameter_free (audio_mimeType r)
      \<or> dm (buffer r) = Detected (audio_mimeType r)" by blast
  then have "lowercase_parameter_free (audio_mimeType r)"
  proof
    assume "dm (buffer r) = Detected (audio_mimeType r)"
    from assms(2)[OF this] show ?thesis by (rule normalizeMime_wf)
  qed
  with s show ?thesis by blast
qed

subsection \<open>Claims\<close>

text \<open>
  C9.  Normalization changes nothing on canonical base64: for every string that is
  already canonical (standard alphabet, correctly padded, hence without data URL prefix
  and without surrounding white space), \<open>normalizeBase64ForDecode\<close> returns the
  identical string.
\<close>

theorem normalize_canonical_identity:
  assumes "canonical_base64 s"
  shows "normalizeBase64ForDecode s = s"
proof -
  from canonical_chars[OF assms] canonical_unfold(3)[OF assms]
  show ?thesis by (rule normalize_fixed)
qed

theorem normalize_canonical_identity_witness:
  "canonical_base64 ''/9j/4AA='' \<and> normalizeBase64ForDecode ''/9j/4AA='' = ''/9j/4AA=''"
proof -
  have h: "canonical_base64 ''/9j/4AA=''" by code_simp
  from normalize_canonical_identity[OF h] h show ?thesis by simp
qed

text \<open>
  C7 (amended).  \<open>getFirstAudioAttachment\<close> scans the attachments in input order.  It
  returns none for an absent or an empty list, and when every attachment is passed over.
  Otherwise the outcome of the call is decided by the first attachment that is not passed
  over: when that attachment is selected, the call returns its decoded buffer, and no
  later attachment is looked at; when its validation fails, the call fails with that
  error.  Passed over, selected and failed are the dispositions of the specification
  (\<open>spec_disposition\<close>), which leaves two cases open.
\<close>

theorem first_audio_by_index:
  "getFirstAudioAttachment dm None mb = Inr None
   \<and> getFirstAudioAttachment dm (Some []) mb = Inr None
   \<and> ((\<forall>j<length atts. spec_disposition dm mb j (atts ! j) = Some PassedOver)
        \<longrightarrow> getFirstAudioAttachment dm (Some atts) mb = Inr None)
   \<and> (\<forall>k d. k < length atts \<and> spec_disposition dm mb k (atts ! k) = Some d \<and> d \<noteq> PassedOver
          \<and> (\<forall>j<k. spec_disposition dm mb j (atts ! j) = Some PassedOver)
        \<longrightarrow> agrees d (getFirstAudioAttachment dm (Some atts) mb))"
proof (intro conjI allI impI)
  show "getFirstAudioAttachment dm None mb = Inr None"
    by (simp add: getFirstAudioAttachment_def)
  show "getFirstAudioAttachment dm (Some []) mb = Inr None"
    by (simp add: getFirstAudioAttachment_def)
next
  assume a: "\<forall>j<length atts. spec_disposition dm mb j (atts ! j) = Some PassedOver"
  have "\<forall>j<length atts. audio_step dm mb (0 + j) (atts ! j) = Inr None"
  proof (intro allI impI)
    fix j assume "j < length atts"
    with a have "spec_disposition dm mb j (atts ! j) = Some PassedOver" by blast
    from audio_step_agrees[OF this] show "audio_step dm mb (0 + j) (atts ! j) = Inr None"
      by (simp add: agrees_PassedOver)
  qed
  then have "audio_loop dm mb 0 atts = Inr None" by (rule audio_loop_skip_all)
  then show "getFirstAudioAttachment dm (Some atts) mb = Inr None"
    by (simp add: getFirstAudioAttachment_def)
next
  fix k d
  assume a: "k < length atts \<and> spec_disposition dm mb k (atts ! k) = Some d \<and> d \<noteq> PassedOver
          \<and> (\<forall>j<k. spec_disposition dm mb j (atts ! j) = Some PassedOver)"
  then have k: "k < length atts" and dk: "spec_disposition dm mb k (atts ! k) = Some d"
    and np: "d \<noteq> PassedOver"
    and before: "\<forall>j<k. spec_disposition dm mb j (atts ! j) = Some PassedOver" by blast+
  have skip: "\<forall>j<k. audio_step dm mb (0 + j) (atts ! j) = Inr None"
  proof (intro allI impI)
    fix j assume "j < k"
    with before have "spec_disposition dm mb j (atts ! j) = Some PassedOver" by blast
    from audio_step_agrees[OF this] show "audio_step dm mb (0 + j) (atts ! j) = Inr None"
      by (simp add: agrees_PassedOver)
  qed
  note ag = audio_step_agrees[OF dk]
  have ne: "audio_step dm mb (0 + k) (atts ! k) \<noteq> Inr None"
    using ag np by (cases d) (auto simp: agrees_def)
  have "audio_loop dm mb 0 atts = audio_step dm mb (0 + k) (atts ! k)"
    by (rule audio_loop_first[OF k skip ne])
  moreover have "atts \<noteq> []" using k by auto
  ultimately have "getFirstAudioAttachment dm (Some atts) mb = audio_step dm mb k (atts ! k)"
    by (simp add: getFirstAudioAttachment_def)
  with ag show "agrees d (getFirstAudioAttachment dm (Some atts) mb)" by simp
qed

theorem first_audio_by_index_witness:
  "spec_disposition sample_detectMime 1000 0 (Some ex_text) = Some PassedOver
   \<and> spec_disposition sample_detectMime 1000 1 (Some ex_jpeg) = Some PassedOver
   \<and> spec_disposition sample_detectMime 1000 2 (Some ex_audio_X)
       = Some (Selected [0x49, 0x44, 0x33, 3, 0, 0])
   \<and> spec_disposition sample_detectMime 1000 3 (Some ex_audio_Y)
       = Some (Selected [0x49, 0x44, 0x33, 4, 0, 0])
   \<and> agrees (Selected [0x49, 0x44, 0x33, 3, 0, 0])
        (getFirstAudioAttachment sample_detectMime
           (Some [Some ex_text, Some ex_jpeg, Some ex_audio_X, Some ex_audio_Y]) 1000)
   \<and> getFirstAudioAttachment sample_detectMime
         (Some [Some ex_text, Some ex_jpeg, Some ex_audio_X, Some ex_audio_Y]) 1000
       = Inr (Some \<lparr>buffer = [0x49, 0x44, 0x33, 3, 0, 0], audio_mimeType = ''audio/mpeg''\<rparr>)"
proof -
  let ?atts = "[Some ex_text, Some ex_jpeg, Some ex_audio_X, Some ex_audio_Y]"
  let ?bX = "[0x49, 0x44, 0x33, 3, 0, 0] :: byte list"
  have s0: "spec_disposition sample_detectMime 1000 0 (Some ex_text) = Some PassedOver"
    by code_simp
  have s1: "spec_disposition sample_detectMime 1000 1 (Some ex_jpeg) = Some PassedOver"
    by code_simp
  have s2: "spec_disposition sample_detectMime 1000 2 (Some ex_audio_X) = Some (Selected ?bX)"
    by code_simp
  have s3: "spec_disposition sample_detectMime 1000 3 (Some ex_audio_Y)
       = Some (Selected [0x49, 0x44, 0x33, 4, 0, 0])" by code_simp
  have before: "\<forall>j<2. spec_disposition sample_detectMime 1000 j (?atts ! j) = Some PassedOver"
  proof (intro allI impI)
    fix j :: nat assume "j < 2"
    then have "j = 0 \<or> j = 1" by arith
    then show "spec_disposition sample_detectMime 1000 j (?atts ! j) = Some PassedOver"
      using s0 s1 by auto
  qed
  have hyp: "2 < length ?atts \<and> spec_disposition sample_detectMime 1000 2 (?atts ! 2)
        = Some (Selected ?bX) \<and> Selected ?bX \<noteq> PassedOver
      \<and> (\<forall>j<2. spec_disposition sample_detectMime 1000 j (?atts ! j) = Some PassedOver)"
    using s2 before by simp
  from first_audio_by_index[of sample_detectMime 1000 ?atts]
  have "\<forall>k d. k < length ?atts \<and> spec_disposition sample_detectMime 1000 k (?atts ! k) = Some d
          \<and> d \<noteq> PassedOver
          \<and> (\<forall>j<k. spec_disposition sample_detectMime 1000 j (?atts ! j) = Some PassedOver)
        \<longrightarrow> agrees d (getFirstAudioAttachment sample_detectMime (Some ?atts) 1000)"
    by blast
  then have ag: "agrees (Selected ?bX) (getFirstAudioAttachment sample_detectMime (Some ?atts) 1000)"
    using hyp by blast
  have val: "getFirstAudioAttachment sample_detectMime (Some ?atts) 1000
       = Inr (Some \<lparr>buffer = ?bX, audio_mimeType = ''audio/mpeg''\<rparr>)" by code_simp
  from s0 s1 s2 s3 ag val show ?thesis by (intro conjI)
qed

text \<open>
  C7 as stated returns the qualifying attachment with the smallest index, and none when
  nothing qualifies.  An audio candidate whose content is not legal base64 does not
  qualify, yet it ends the scan: the call fails, also when a later attachment qualifies.
\<close>

theorem first_audio_candidate_failure_aborts:
  "audio_step sample_detectMime 1000 0 (Some ex_audio_illegal) = Inl (InvalidEncoding ''attachment-1'')
   \<and> audio_step sample_detectMime 1000 1 (Some ex_audio_X)
       = Inr (Some \<lparr>buffer = [0x49, 0x44, 0x33, 3, 0, 0], audio_mimeType = ''audio/mpeg''\<rparr>)
   \<and> getFirstAudioAttachment sample_detectMime (Some [Some ex_audio_illegal, Some ex_audio_X]) 1000
       = Inl (InvalidEncoding ''attachment-1'')
   \<and> getFirstAudioAttachment sample_detectMime (Some [Some ex_audio_illegal]) 1000
       = Inl (InvalidEncoding ''attachment-1'')"
  by code_simp

text \<open>
  C10.  Every result of \<open>getFirstAudioAttachment\<close> is to carry a buffer of 1 to
  maxBytes bytes and a lower-case, parameter-free type that begins with \<open>audio/\<close>.  The
  code breaks this for a type taken from detection on the full buffer: unlike the two
  sniffing call sites, \<open>decodeAndValidateAudioAttachment\<close> does not pass the answer of
  the detector through \<open>normalizeMime\<close>.  With a detector that reports Opus audio the way
  signature libraries do, an undeclared Ogg attachment is returned with the type
  \<open>audio/ogg; codecs=opus\<close>, which carries a parameter.
\<close>

theorem first_audio_mime_not_normalized:
  "getFirstAudioAttachment opus_detectMime (Some [Some ex_ogg_undeclared]) 1000
     = Inr (Some \<lparr>buffer = [0x4F, 0x67, 0x67, 0x53, 0, 2],
                    audio_mimeType = ''audio/ogg; codecs=opus''\<rparr>)
   \<and> \<not> lowercase_parameter_free ''audio/ogg; codecs=opus''"
  by code_simp

text \<open>
C1 (amended).  In the lenient path and in the legacy encoder, a present attachment
  whose content is not a string makes the call fail: with \<open>UnsupportedContentShape\<close>
  for that attachment when the loop reaches it (no earlier attachment made the call
  fail), and in any case the call does not succeed.  The strict first-audio path never
  raises this error: its loop passes such an attachment over, exactly as it passes over
  a missing one.
\<close>

theorem non_string_content:
  assumes "att_content att = NotString"
  shows "(snd (parse_loop dm (parse_maxBytes opts) (parse_log opts) 0 pre [] []) = Inr imgs
            \<longrightarrow> snd (parseMessageWithAttachments dm msg (Some (pre @ Some att # post)) opts)
                  = Inl (UnsupportedContentShape (label_of att (length pre))))
         \<and> (\<exists>e. snd (parseMessageWithAttachments dm msg (Some (pre @ Some att # post)) opts) = Inl e)
         \<and> (build_loop (build_maxBytes om) 0 pre [] = Inr blocks
            \<longrightarrow> buildMessageWithAttachments msg (Some (pre @ Some att # post)) om
                  = Inl (UnsupportedContentShape (label_of att (length pre))))
         \<and> (\<exists>e. buildMessageWithAttachments msg (Some (pre @ Some att # post)) om = Inl e)
         \<and> audio_step dm mb (length pre) (Some att) = Inr None
         \<and> getFirstAudioAttachment dm (Some (pre @ Some att # post)) mb
             = getFirstAudioAttachment dm (Some (pre @ None # post)) mb"
proof (intro conjI impI)
  let ?atts = "pre @ Some att # post"
  let ?e = "UnsupportedContentShape (label_of att (length pre))"
  have ne: "?atts \<noteq> []" by simp
  note ps = parse_step_not_string[OF assms, of dm "parse_maxBytes opts" "parse_log opts" "length pre"]
  note bs = build_step_not_string[OF assms, of "build_maxBytes om" "length pre"]
  show "snd (parseMessageWithAttachments dm msg (Some ?atts) opts) = Inl ?e"
    if "snd (parse_loop dm (parse_maxBytes opts) (parse_log opts) 0 pre [] []) = Inr imgs"
    using parse_loop_reaches[OF that ps, of post] by (simp add: parse_call_loop[OF ne])
  from parse_loop_fails[OF ps, of post]
  show "\<exists>e. snd (parseMessageWithAttachments dm msg (Some ?atts) opts) = Inl e"
    by (auto simp: parse_call_loop[OF ne])
  show "buildMessageWithAttachments msg (Some ?atts) om = Inl ?e"
    if "build_loop (build_maxBytes om) 0 pre [] = Inr blocks"
    using build_loop_reaches[OF that bs, of post] by (rule build_call_loop)
  from build_loop_fails[OF bs, of post]
  show "\<exists>e. buildMessageWithAttachments msg (Some ?atts) om = Inl e"
    using build_call_loop by blast
  show "audio_step dm mb (length pre) (Some att) = Inr None"
    using assms by (simp add: audio_step_def)
  have "audio_loop dm mb 0 ?atts = audio_loop dm mb 0 (pre @ None # post)"
    using assms by (simp add: audio_loop_append audio_step_def split: sum.split option.split)
  then show "getFirstAudioAttachment dm (Some ?atts) mb
      = getFirstAudioAttachment dm (Some (pre @ None # post)) mb"
    by (simp add: audio_call_loop)
qed

theorem non_string_content_witness:
  "att_content ex_not_string = NotString
   \<and> snd (parseMessageWithAttachments sample_detectMime ''hi''
            (Some [Some ex_jpeg, Some ex_not_string]) (Some ex_opts))
       = Inl (UnsupportedContentShape ''attachment-2'')
   \<and> buildMessageWithAttachments ''hi'' (Some [Some ex_jpeg, Some ex_not_string]) (Some 1000)
       = Inl (UnsupportedContentShape ''attachment-2'')
   \<and> getFirstAudioAttachment sample_detectMime (Some [Some ex_jpeg, Some ex_not_string]) 1000
       = Inr None"
proof -
  have h: "att_content ex_not_string = NotString" by code_simp
  have p: "snd (parse_loop sample_detectMime (parse_maxBytes (Some ex_opts))
                  (parse_log (Some ex_opts)) 0 [Some ex_jpeg] [] [])
           = Inr [\<lparr>img_type = ''image'', img_data = ''/9j/4AAQ'', img_mimeType = ''image/jpeg''\<rparr>]"
    by code_simp
  have b: "build_loop (build_maxBytes (Some 1000)) 0 [Some ex_jpeg] []
           = Inr [''![attachment-1](data:image/jpeg;base64,/9j/4AAQ)'']"
    by code_simp
  have l: "label_of ex_not_string (length [Some ex_jpeg]) = ''attachment-2''" by code_simp
  have g: "getFirstAudioAttachment sample_detectMime (Some [Some ex_jpeg, None]) 1000 = Inr None"
    by code_simp
  note t = non_string_content[OF h, where dm = sample_detectMime and opts = "Some ex_opts"
      and pre = "[Some ex_jpeg]" and post = "[]" and msg = "''hi''" and om = "Some 1000"
      and mb = 1000
      and imgs = "[\<lparr>img_type = ''image'', img_data = ''/9j/4AAQ'', img_mimeType = ''image/jpeg''\<rparr>]"
      and blocks = "[''![attachment-1](data:image/jpeg;base64,/9j/4AAQ)'']"]
  have pre: "[Some ex_jpeg] @ Some ex_not_string # [] = [Some ex_jpeg, Some ex_not_string]"
    "[Some ex_jpeg] @ None # [] = [Some ex_jpeg, None]" by simp_all
  note t' = t[unfolded pre l]
  note r1 = t'[THEN conjunct1, THEN mp, OF p]
  note r3 = t'[THEN conjunct2, THEN conjunct2, THEN conjunct1, THEN mp, OF b]
  note r6 = t'[THEN conjunct2, THEN conjunct2, THEN conjunct2, THEN conjunct2, THEN conjunct2]
  from r6 g have r7: "getFirstAudioAttachment sample_detectMime
      (Some [Some ex_jpeg, Some ex_not_string]) 1000 = Inr None" by (rule trans)
  from h r1 r3 r7 show ?thesis by (intro conjI)
qed

text \<open>
  C1 as stated fails on the strict first-audio path: an attachment whose content is not
  a string is passed over there, and the call returns none instead of failing.
\<close>

theorem non_string_content_skipped:
  "att_content ex_not_string = NotString
   \<and> getFirstAudioAttachment sample_detectMime (Some [Some ex_not_string]) 1000 = Inr None"
  by code_simp

text \<open>
  C4 (amended).  An attachment that passes validation (legal base64 that decodes to
  between 1 and maxBytes bytes), whose declared MIME type is audio and whose bytes sniff
  as the generic MPEG-4 container type \<open>video/mp4\<close>, is treated as audio by both paths:
  the lenient path leaves it out of the image list and emits no warning, and the strict
  first-audio path returns it when no earlier attachment was selected.
\<close>

theorem m4a_container_is_audio:
  assumes "att_content att = Str c"
    and "\<not> has_illegal_char (normalizeBase64ForDecode c)"
    and "1 \<le> length (base64_decode (normalizeBase64ForDecode c))"
    and "length (base64_decode (normalizeBase64ForDecode c)) \<le> mb"
    and "normalizeMime (att_mimeType att) = Some pm"
    and "isAudioMime (Some pm)"
    and "normalizeMime (sniffMimeFromBase64 dm c) = Some ''video/mp4''"
  shows "parse_step dm mb lg idx att = Inr (None, [])
         \<and> parse_loop dm mb lg idx (Some att # rest) imgs ws
             = parse_loop dm mb lg (Suc idx) rest imgs ws
         \<and> (audio_loop dm mb 0 pre = Inr None
              \<longrightarrow> getFirstAudioAttachment dm (Some (pre @ Some att # post)) mb
                    = Inr (Some \<lparr>buffer = base64_decode (normalizeBase64ForDecode c),
                                   audio_mimeType = pm\<rparr>))"
proof (intro conjI impI)
  show ps: "parse_step dm mb lg idx att = Inr (None, [])"
    unfolding parse_step_valid[OF assms(1-4)] assms(5,7)
    using assms(6) by (simp add: classify_valid_def mp4_not_image)
  show "parse_loop dm mb lg idx (Some att # rest) imgs ws
             = parse_loop dm mb lg (Suc idx) rest imgs ws"
    using parse_loop_step[OF ps] by simp
next
  assume pre: "audio_loop dm mb 0 pre = Inr None"
  have a: "isAudioMime (normalizeMime (att_mimeType att))" using assms(5,6) by simp
  have "audio_step dm mb (length pre) (Some att)
      = decodeAndValidateAudioAttachment dm att c (length pre) mb"
    by (simp add: audio_step_Str[OF assms(1)] candidate_declared_audio[OF a])
  also have "\<dots> = Inr (Some \<lparr>buffer = base64_decode (normalizeBase64ForDecode c),
                                   audio_mimeType = pm\<rparr>)"
    unfolding dv_valid[OF assms(2-4)] using assms(5,6) by simp
  finally show "getFirstAudioAttachment dm (Some (pre @ Some att # post)) mb
      = Inr (Some \<lparr>buffer = base64_decode (normalizeBase64ForDecode c), audio_mimeType = pm\<rparr>)"
    by (rule audio_loop_reaches[OF pre])
qed

theorem m4a_container_is_audio_witness:
  "parse_step sample_detectMime 1000 True 1 ex_m4a = Inr (None, [])
   \<and> fst (parseMessageWithAttachments sample_detectMime ''hi''
             (Some [Some ex_jpeg, Some ex_m4a]) (Some ex_opts)) = []
   \<and> getFirstAudioAttachment sample_detectMime (Some [Some ex_jpeg, Some ex_m4a]) 1000
       = Inr (Some \<lparr>buffer = [0, 0, 0, 0x18, 0x66, 0x74, 0x79, 0x70, 0x4D],
                      audio_mimeType = ''audio/m4a''\<rparr>)"
proof -
  have c: "att_content ex_m4a = Str ''AAAAGGZ0eXBN''" by code_simp
  have l: "\<not> has_illegal_char (normalizeBase64ForDecode ''AAAAGGZ0eXBN'')" by code_simp
  have d: "base64_decode (normalizeBase64ForDecode ''AAAAGGZ0eXBN'')
      = [0, 0, 0, 0x18, 0x66, 0x74, 0x79, 0x70, 0x4D]" by code_simp
  have n1: "1 \<le> length (base64_decode (normalizeBase64ForDecode ''AAAAGGZ0eXBN''))"
    unfolding d by simp
  have n2: "length (base64_decode (normalizeBase64ForDecode ''AAAAGGZ0eXBN'')) \<le> 1000"
    unfolding d by simp
  have m: "normalizeMime (att_mimeType ex_m4a) = Some ''audio/m4a''" by code_simp
  have a: "isAudioMime (Some ''audio/m4a'')" by code_simp
  have s: "normalizeMime (sniffMimeFromBase64 sample_detectMime ''AAAAGGZ0eXBN'') = Some ''video/mp4''"
    by code_simp
  have pre: "audio_loop sample_detectMime 1000 0 [Some ex_jpeg] = Inr None" by code_simp
  have w: "fst (parseMessageWithAttachments sample_detectMime ''hi''
             (Some [Some ex_jpeg, Some ex_m4a]) (Some ex_opts)) = []" by code_simp
  note t = m4a_container_is_audio[OF c l n1 n2 m a s, where lg = True and idx = 1
      and pre = "[Some ex_jpeg]" and post = "[]"]
  note r1 = t[THEN conjunct1]
  note r3 = t[THEN conjunct2, THEN conjunct2, THEN mp, OF pre, unfolded d]
  have e: "[Some ex_jpeg] @ Some ex_m4a # [] = [Some ex_jpeg, Some ex_m4a]" by simp
  from r1 w r3[unfolded e] show ?thesis by (intro conjI)
qed

text \<open>
  C4 as stated covers every attachment with a declared audio type and bytes that sniff
  as \<open>video/mp4\<close>.  Validation comes first on both paths: above the ceiling the same
  attachment makes both calls fail.
\<close>

theorem m4a_over_ceiling_fails:
  "normalizeMime (att_mimeType ex_m4a) = Some ''audio/m4a''
   \<and> isAudioMime (Some ''audio/m4a'')
   \<and> att_content ex_m4a = Str ''AAAAGGZ0eXBN''
   \<and> normalizeMime (sniffMimeFromBase64 sample_detectMime ''AAAAGGZ0eXBN'') = Some ''video/mp4''
   \<and> length (base64_decode (normalizeBase64ForDecode ''AAAAGGZ0eXBN'')) = 9
   \<and> snd (parseMessageWithAttachments sample_detectMime ''hi'' (Some [Some ex_m4a])
            (Some \<lparr>opt_maxBytes = Some 5, opt_log = True\<rparr>))
       = Inl (SizeExceeded ''attachment-1'' 9 5)
   \<and> getFirstAudioAttachment sample_detectMime (Some [Some ex_m4a]) 5
       = Inl (SizeExceeded ''attachment-1'' 9 5)"
  by code_simp

text \<open>
  C5.  In the lenient path, a valid attachment whose declared and sniffed MIME types
  are both present, both image types, and different is kept in the image list with the
  sniffed type as its \<open>mimeType\<close>; a warning that names the attachment and both types
  reaches the warning sink; and the loop goes on with the next attachment.
\<close>

theorem mismatch_sniffed_wins:
  assumes "att_content att = Str c"
    and "\<not> has_illegal_char (normalizeBase64ForDecode c)"
    and "1 \<le> length (base64_decode (normalizeBase64ForDecode c))"
    and "length (base64_decode (normalizeBase64ForDecode c)) \<le> mb"
    and "normalizeMime (att_mimeType att) = Some pm"
    and "normalizeMime (sniffMimeFromBase64 dm c) = Some sm"
    and "isImageMime (Some pm)" and "isImageMime (Some sm)" and "sm \<noteq> pm"
  shows "parse_step dm mb True idx att =
           Inr (Some \<lparr>img_type = ''image'', img_data = normalizeBase64ForDecode c,
                       img_mimeType = sm\<rparr>,
                [''attachment '' @ label_of att idx @ '': mime mismatch ('' @ pm @ '' -> ''
                   @ sm @ ''), using sniffed''])
         \<and> parse_loop dm mb True idx (Some att # rest) imgs ws =
             parse_loop dm mb True (Suc idx) rest
               (imgs @ [\<lparr>img_type = ''image'', img_data = normalizeBase64ForDecode c,
                          img_mimeType = sm\<rparr>])
               (ws @ [''attachment '' @ label_of att idx @ '': mime mismatch ('' @ pm @ '' -> ''
                        @ sm @ ''), using sniffed''])"
proof -
  have ps: "parse_step dm mb True idx att =
           Inr (Some \<lparr>img_type = ''image'', img_data = normalizeBase64ForDecode c,
                       img_mimeType = sm\<rparr>,
                [''attachment '' @ label_of att idx @ '': mime mismatch ('' @ pm @ '' -> ''
                   @ sm @ ''), using sniffed''])"
    unfolding parse_step_valid[OF assms(1-4)] assms(5,6)
    using assms(7,8,9) by (simp add: classify_valid_def warn_def)
  from ps parse_loop_step[OF ps, of rest imgs ws] show ?thesis by simp
qed

theorem mismatch_sniffed_wins_witness:
  "parseMessageWithAttachments sample_detectMime ''hi''
     (Some [Some ex_jpeg_declared_png, Some ex_png]) (Some ex_opts)
   = ([''attachment photo.png: mime mismatch (image/png -> image/jpeg), using sniffed''],
      Inr \<lparr>message = ''hi'',
           images = [\<lparr>img_type = ''image'', img_data = ''/9j/4AAQ'', img_mimeType = ''image/jpeg''\<rparr>,
                     \<lparr>img_type = ''image'', img_data = ''iVBORw0KGgo='', img_mimeType = ''image/png''\<rparr>]\<rparr>)"
proof -
  have c: "att_content ex_jpeg_declared_png = Str ''/9j/4AAQ''" by code_simp
  have l: "\<not> has_illegal_char (normalizeBase64ForDecode ''/9j/4AAQ'')" by code_simp
  have n1: "1 \<le> length (base64_decode (normalizeBase64ForDecode ''/9j/4AAQ''))" by code_simp
  have n2: "length (base64_decode (normalizeBase64ForDecode ''/9j/4AAQ'')) \<le> 1000" by code_simp
  have m: "normalizeMime (att_mimeType ex_jpeg_declared_png) = Some ''image/png''" by code_simp
  have s: "normalizeMime (sniffMimeFromBase64 sample_detectMime ''/9j/4AAQ'') = Some ''image/jpeg''"
    by code_simp
  have i1: "isImageMime (Some ''image/png'')" by code_simp
  have i2: "isImageMime (Some ''image/jpeg'')" by code_simp
  have ne: "''image/jpeg'' \<noteq> ''image/png''" by simp
  have nb: "normalizeBase64ForDecode ''/9j/4AAQ'' = ''/9j/4AAQ''" by code_simp
  have lb: "label_of ex_jpeg_declared_png 0 = ''photo.png''" by code_simp
  note t = mismatch_sniffed_wins[OF c l n1 n2 m s i1 i2 ne, where idx = 0
      and rest = "[Some ex_png]" and imgs = "[]" and ws = "[]", unfolded nb lb, THEN conjunct2]
  have rest: "parse_loop sample_detectMime 1000 True (Suc 0) [Some ex_png]
      ([] @ [\<lparr>img_type = ''image'', img_data = ''/9j/4AAQ'', img_mimeType = ''image/jpeg''\<rparr>])
      ([] @ [''attachment '' @ ''photo.png'' @ '': mime mismatch ('' @ ''image/png'' @ '' -> ''
                        @ ''image/jpeg'' @ ''), using sniffed''])
    = ([''attachment photo.png: mime mismatch (image/png -> image/jpeg), using sniffed''],
       Inr [\<lparr>img_type = ''image'', img_data = ''/9j/4AAQ'', img_mimeType = ''image/jpeg''\<rparr>,
            \<lparr>img_type = ''image'', img_data = ''iVBORw0KGgo='', img_mimeType = ''image/png''\<rparr>])"
    by code_simp
  have o: "parse_maxBytes (Some ex_opts) = 1000" "parse_log (Some ex_opts) = True" by code_simp+
  from t rest have loop: "parse_loop sample_detectMime 1000 True 0
      (Some ex_jpeg_declared_png # [Some ex_png]) [] []
    = ([''attachment photo.png: mime mismatch (image/png -> image/jpeg), using sniffed''],
       Inr [\<lparr>img_type = ''image'', img_data = ''/9j/4AAQ'', img_mimeType = ''image/jpeg''\<rparr>,
            \<lparr>img_type = ''image'', img_data = ''iVBORw0KGgo='', img_mimeType = ''image/png''\<rparr>])"
    by (rule trans)
  show ?thesis
    unfolding parseMessageWithAttachments_def Let_def o
    by (simp del: parse_loop.simps add: loop)
qed

text \<open>
  C2.  In the strict first-audio path an attachment whose declared MIME type is absent
  or not audio, whose content is valid, and whose sniffed type is audio is to be
  returned when no earlier attachment qualifies.  The code does this for an absent
  declared type only.  With a declared type that is not audio the attachment is decoded,
  its type is resolved to the declared one, the audio check fails, and the scan moves
  on: the call returns none.  The lenient path drops the same attachment without a
  warning, as audio.
\<close>

theorem sniffed_audio_declared_other_not_selected:
  "normalizeMime (att_mimeType ex_audio_declared_binary) = Some ''application/octet-stream''
   \<and> \<not> isAudioMime (Some ''application/octet-stream'')
   \<and> att_content ex_audio_declared_binary = Str ''SUQzAwAA''
   \<and> \<not> has_illegal_char (normalizeBase64ForDecode ''SUQzAwAA'')
   \<and> length (base64_decode (normalizeBase64ForDecode ''SUQzAwAA'')) = 6
   \<and> normalizeMime (sniffMimeFromBase64 sample_detectMime ''SUQzAwAA'') = Some ''audio/mpeg''
   \<and> getFirstAudioAttachment sample_detectMime (Some [Some ex_audio_declared_binary]) 1000
       = Inr None
   \<and> getFirstAudioAttachment sample_detectMime (Some [Some ex_audio_undeclared]) 1000
       = Inr (Some \<lparr>buffer = [0x49, 0x44, 0x33, 3, 0, 0], audio_mimeType = ''audio/mpeg''\<rparr>)
   \<and> parseMessageWithAttachments sample_detectMime ''hi'' (Some [Some ex_audio_declared_binary])
         (Some ex_opts)
       = ([], Inr \<lparr>message = ''hi'', images = []\<rparr>)"
  by code_simp

text \<open>
  C6 (amended).  Let an attachment have legal base64 content that decodes to \<open>n\<close>
  bytes.  On the lenient path: with \<open>1 \<le> n \<le> maxBytes\<close> (so with \<open>n\<close> exactly
  \<open>maxBytes\<close>, when that is at least one) the attachment passes validation; with
  \<open>n = 0\<close> or \<open>n > maxBytes\<close> the call fails with \<open>SizeExceeded\<close> once the loop
  reaches the attachment.  On the strict path the same holds for an audio candidate, an
  attachment whose declared or sniffed type is audio: within the bounds its validation
  raises no encoding or size error, outside them the call fails with \<open>SizeExceeded\<close>
  once the scan reaches it.  An attachment that is not an audio candidate is passed over
  by the strict path without any size check, as if it were missing.  The error carries
  the observed size and the limit, and its message shows both in decimal (for numbers
  below \<open>10^21\<close>).
\<close>

theorem size_boundary:
  assumes "att_content att = Str c"
    and "\<not> has_illegal_char (normalizeBase64ForDecode c)"
    and "n = length (base64_decode (normalizeBase64ForDecode c))"
  shows "(1 \<le> n \<and> n \<le> mb \<longrightarrow> (\<exists>p. parse_step dm mb lg idx att = Inr p))
         \<and> (n = 0 \<or> n > parse_maxBytes opts
              \<longrightarrow> snd (parse_loop dm (parse_maxBytes opts) (parse_log opts) 0 pre [] []) = Inr imgs
              \<longrightarrow> snd (parseMessageWithAttachments dm msg (Some (pre @ Some att # post)) opts)
                    = Inl (SizeExceeded (label_of att (length pre)) n (parse_maxBytes opts)))
         \<and> (isAudioMime (normalizeMime (att_mimeType att))
               \<or> isAudioMime (normalizeMime (sniffMimeFromBase64 dm c))
              \<longrightarrow> 1 \<le> n \<and> n \<le> mb
              \<longrightarrow> (\<forall>e. audio_step dm mb idx (Some att) = Inl e \<longrightarrow> e = DetectorRejected))
         \<and> (isAudioMime (normalizeMime (att_mimeType att))
               \<or> isAudioMime (normalizeMime (sniffMimeFromBase64 dm c))
              \<longrightarrow> n = 0 \<or> n > mb
              \<longrightarrow> audio_loop dm mb 0 pre = Inr None
              \<longrightarrow> getFirstAudioAttachment dm (Some (pre @ Some att # post)) mb
                    = Inl (SizeExceeded (label_of att (length pre)) n mb))
         \<and> (\<not> isAudioMime (normalizeMime (att_mimeType att))
               \<and> \<not> isAudioMime (normalizeMime (sniffMimeFromBase64 dm c))
              \<longrightarrow> audio_step dm mb idx (Some att) = Inr None
                  \<and> getFirstAudioAttachment dm (Some (pre @ Some att # post)) mb
                      = getFirstAudioAttachment dm (Some (pre @ None # post)) mb)
         \<and> (n < 1000000000000000000000 \<and> mb < 1000000000000000000000
              \<longrightarrow> (\<exists>m. error_message (SizeExceeded label n mb) = Some m
                       \<and> sublist (string_of_nat n) m \<and> sublist (string_of_nat mb) m))"
proof (intro conjI impI allI)
  assume "1 \<le> n \<and> n \<le> mb"
  then show "\<exists>p. parse_step dm mb lg idx att = Inr p"
    using parse_step_valid[OF assms(1,2), of mb dm lg idx] assms(3) by simp
next
  assume bad: "n = 0 \<or> n > parse_maxBytes opts"
    and pre: "snd (parse_loop dm (parse_maxBytes opts) (parse_log opts) 0 pre [] []) = Inr imgs"
  have "parse_step dm (parse_maxBytes opts) (parse_log opts) (length pre) att
      = Inl (SizeExceeded (label_of att (length pre)) n (parse_maxBytes opts))"
    using parse_step_size[OF assms(1,2), of "parse_maxBytes opts" dm "parse_log opts" "length pre"]
      bad assms(3) by simp
  from parse_call_reaches[OF pre this]
  show "snd (parseMessageWithAttachments dm msg (Some (pre @ Some att # post)) opts)
      = Inl (SizeExceeded (label_of att (length pre)) n (parse_maxBytes opts))" .
next
  fix e
  assume cand: "isAudioMime (normalizeMime (att_mimeType att))
               \<or> isAudioMime (normalizeMime (sniffMimeFromBase64 dm c))"
    and ok: "1 \<le> n \<and> n \<le> mb"
    and err: "audio_step dm mb idx (Some att) = Inl e"
  from err have "decodeAndValidateAudioAttachment dm att c idx mb = Inl e"
    by (simp add: audio_step_Str[OF assms(1)] candidate_is_validated[OF cand])
  then show "e = DetectorRejected"
    using dv_errors[OF assms(2), of mb dm att idx e] ok assms(3) by simp
next
  assume cand: "isAudioMime (normalizeMime (att_mimeType att))
               \<or> isAudioMime (normalizeMime (sniffMimeFromBase64 dm c))"
    and bad: "n = 0 \<or> n > mb"
    and pre: "audio_loop dm mb 0 pre = Inr None"
  have "audio_step dm mb (length pre) (Some att)
      = Inl (SizeExceeded (label_of att (length pre)) n mb)"
    using dv_size[OF assms(2), of mb dm att "length pre"] bad assms(3)
    by (simp add: audio_step_Str[OF assms(1)] candidate_is_validated[OF cand])
  then show "getFirstAudioAttachment dm (Some (pre @ Some att # post)) mb
      = Inl (SizeExceeded (label_of att (length pre)) n mb)"
    by (rule audio_loop_reaches_error[OF pre])
next
  assume nc: "\<not> isAudioMime (normalizeMime (att_mimeType att))
               \<and> \<not> isAudioMime (normalizeMime (sniffMimeFromBase64 dm c))"
  show "audio_step dm mb idx (Some att) = Inr None"
    using nc by (simp add: non_candidate_skipped[OF assms(1)])
  have "audio_step dm mb (length pre) (Some att) = Inr None"
    using nc by (simp add: non_candidate_skipped[OF assms(1)])
  then have "audio_loop dm mb 0 (pre @ Some att # post) = audio_loop dm mb 0 (pre @ None # post)"
    by (simp add: audio_loop_append audio_step_def split: sum.split option.split)
  then show "getFirstAudioAttachment dm (Some (pre @ Some att # post)) mb
      = getFirstAudioAttachment dm (Some (pre @ None # post)) mb"
    by (simp add: audio_call_loop)
next
  assume "n < 1000000000000000000000 \<and> mb < 1000000000000000000000"
  then show "\<exists>m. error_message (SizeExceeded label n mb) = Some m
                       \<and> sublist (string_of_nat n) m \<and> sublist (string_of_nat mb) m"
    using size_message[of n mb label] by blast
qed

theorem size_boundary_witness:
  "length (base64_decode (normalizeBase64ForDecode ''SUQzAwAA'')) = 6
   \<and> (\<exists>p. parse_step sample_detectMime 6 True 0 ex_audio_X = Inr p)
   \<and> audio_step sample_detectMime 6 0 (Some ex_audio_X) \<noteq> Inl (SizeExceeded ''attachment-1'' 6 6)
   \<and> snd (parseMessageWithAttachments sample_detectMime ''hi''
            (Some [Some ex_three_bytes, Some ex_audio_X]) (Some \<lparr>opt_maxBytes = Some 5, opt_log = True\<rparr>))
       = Inl (SizeExceeded ''attachment-2'' 6 5)
   \<and> getFirstAudioAttachment sample_detectMime (Some [Some ex_three_bytes, Some ex_audio_X]) 5
       = Inl (SizeExceeded ''attachment-2'' 6 5)
   \<and> audio_step sample_detectMime 1 0 (Some ex_three_bytes) = Inr None
   \<and> error_message (SizeExceeded ''attachment-2'' 6 5)
       = Some ''attachment attachment-2: exceeds size limit (6 > 5 bytes)''
   \<and> sublist ''6'' ''attachment attachment-2: exceeds size limit (6 > 5 bytes)''
   \<and> sublist ''5'' ''attachment attachment-2: exceeds size limit (6 > 5 bytes)''"
proof -
  let ?opts = "Some \<lparr>opt_maxBytes = Some 5, opt_log = True\<rparr>"
  have c: "att_content ex_audio_X = Str ''SUQzAwAA''" by code_simp
  have l: "\<not> has_illegal_char (normalizeBase64ForDecode ''SUQzAwAA'')" by code_simp
  have n: "6 = length (base64_decode (normalizeBase64ForDecode ''SUQzAwAA''))" by code_simp
  have cand: "isAudioMime (normalizeMime (att_mimeType ex_audio_X))
      \<or> isAudioMime (normalizeMime (sniffMimeFromBase64 sample_detectMime ''SUQzAwAA''))"
    by code_simp
  have mb: "parse_maxBytes ?opts = 5" by code_simp
  have pre: "snd (parse_loop sample_detectMime (parse_maxBytes ?opts) (parse_log ?opts) 0
                    [Some ex_three_bytes] [] [])
           = Inr [\<lparr>img_type = ''image'', img_data = ''AAAA'', img_mimeType = ''image/png''\<rparr>]"
    by code_simp
  have apre: "audio_loop sample_detectMime 5 0 [Some ex_three_bytes] = Inr None" by code_simp
  have lb: "label_of ex_audio_X (length [Some ex_three_bytes]) = ''attachment-2''" by code_simp
  have e: "[Some ex_three_bytes] @ Some ex_audio_X # [] = [Some ex_three_bytes, Some ex_audio_X]" by simp
  have sn: "string_of_nat 6 = ''6''" "string_of_nat 5 = ''5''" by code_simp+
  note exact = size_boundary[OF c l n, where dm = sample_detectMime and mb = 6 and lg = True
      and idx = 0]
  note over = size_boundary[OF c l n, where dm = sample_detectMime and mb = 5 and opts = ?opts
      and pre = "[Some ex_three_bytes]" and post = "[]" and msg = "''hi''" and label = "''attachment-2''"
      and imgs = "[\<lparr>img_type = ''image'', img_data = ''AAAA'', img_mimeType = ''image/png''\<rparr>]",
      unfolded e lb]
  have r1: "\<exists>p. parse_step sample_detectMime 6 True 0 ex_audio_X = Inr p"
    using exact[THEN conjunct1] by simp
  have "\<forall>e. audio_step sample_detectMime 6 0 (Some ex_audio_X) = Inl e \<longrightarrow> e = DetectorRejected"
    using exact[THEN conjunct2, THEN conjunct2, THEN conjunct1, THEN mp, OF cand] by simp
  then have r2: "audio_step sample_detectMime 6 0 (Some ex_audio_X)
      \<noteq> Inl (SizeExceeded ''attachment-1'' 6 6)"
    by auto
  have r3: "snd (parseMessageWithAttachments sample_detectMime ''hi''
            (Some [Some ex_three_bytes, Some ex_audio_X]) ?opts) = Inl (SizeExceeded ''attachment-2'' 6 5)"
    using over[THEN conjunct2, THEN conjunct1] pre mb by simp
  have r4: "getFirstAudioAttachment sample_detectMime (Some [Some ex_three_bytes, Some ex_audio_X]) 5
       = Inl (SizeExceeded ''attachment-2'' 6 5)"
    using over[THEN conjunct2, THEN conjunct2, THEN conjunct2, THEN conjunct1, THEN mp, OF cand] apre
    by simp
  have c3: "att_content ex_three_bytes = Str ''AAAA''" by code_simp
  have l3: "\<not> has_illegal_char (normalizeBase64ForDecode ''AAAA'')" by code_simp
  have n3: "3 = length (base64_decode (normalizeBase64ForDecode ''AAAA''))" by code_simp
  have nc: "\<not> isAudioMime (normalizeMime (att_mimeType ex_three_bytes))
      \<and> \<not> isAudioMime (normalizeMime (sniffMimeFromBase64 sample_detectMime ''AAAA''))"
    by code_simp
  note skipped = size_boundary[OF c3 l3 n3, where dm = sample_detectMime and mb = 1 and idx = 0,
      THEN conjunct2, THEN conjunct2, THEN conjunct2, THEN conjunct2, THEN conjunct1,
      THEN mp, OF nc, THEN conjunct1]
  have small: "(6::nat) < 1000000000000000000000 \<and> (5::nat) < 1000000000000000000000" by simp
  from over[THEN conjunct2, THEN conjunct2, THEN conjunct2, THEN conjunct2, THEN conjunct2,
      THEN mp, OF small]
  obtain m where m: "error_message (SizeExceeded ''attachment-2'' 6 5) = Some m"
    and s6: "sublist (string_of_nat 6) m" and s5: "sublist (string_of_nat 5) m" by blast
  have r5: "error_message (SizeExceeded ''attachment-2'' 6 5)
       = Some ''attachment attachment-2: exceeds size limit (6 > 5 bytes)''"
    using sn by (simp add: number_text_def)
  from m r5 have mv: "m = ''attachment attachment-2: exceeds size limit (6 > 5 bytes)''" by simp
  note r6 = s6[unfolded mv sn] and r7 = s5[unfolded mv sn]
  from n[symmetric] r1 r2 r3 r4 skipped r5 r6 r7 show ?thesis by (intro conjI)
qed

text \<open>
  C6 as stated fails in two places.  On the strict path an attachment that is not an
  audio candidate is never validated: a payload of three bytes under a ceiling of one
  byte is passed over and the call returns none.  And under a ceiling of zero a payload
  that decodes to exactly \<open>maxBytes\<close> bytes is rejected.
\<close>

theorem size_not_checked_or_zero_ceiling:
  "att_content ex_three_bytes = Str ''AAAA''
   \<and> \<not> has_illegal_char (normalizeBase64ForDecode ''AAAA'')
   \<and> length (base64_decode (normalizeBase64ForDecode ''AAAA'')) = 3
   \<and> getFirstAudioAttachment sample_detectMime (Some [Some ex_three_bytes]) 1 = Inr None
   \<and> att_content ex_empty = Str []
   \<and> length (base64_decode (normalizeBase64ForDecode [])) = 0
   \<and> snd (parseMessageWithAttachments sample_detectMime ''hi'' (Some [Some ex_empty])
            (Some \<lparr>opt_maxBytes = Some 0, opt_log = True\<rparr>))
       = Inl (SizeExceeded ''attachment-1'' 0 0)"
  by code_simp

text \<open>
C3 (amended).  The legacy encoder does not normalize content.  For an attachment with
  a declared image type it only trims the content and rejects it with \<open>InvalidEncoding\<close>
  when the trimmed text has a length that is not a multiple of four or holds a character
  outside the standard alphabet, such as the \<open>-\<close> and \<open>_\<close> of the URL-safe alphabet.
  On content whose trimmed text is legal and has a length that is a multiple of four,
  normalization is the same as trimming, and under the same ceiling the legacy body fails
  exactly when the lenient body fails, with the same error.  The default ceiling of the
  legacy encoder is 2,000,000 bytes.
\<close>

theorem legacy_validation:
  assumes "att_content att = Str c"
    and "startsWith (mime_or_empty att) ''image/''"
  shows "(length (trim c) mod 4 \<noteq> 0 \<or> CHR ''-'' \<in> set (trim c) \<or> CHR ''_'' \<in> set (trim c)
            \<or> has_illegal_char (trim c)
          \<longrightarrow> build_step mb idx att = Inl (InvalidEncoding (label_of att idx)))
         \<and> (length (trim c) mod 4 = 0 \<and> \<not> has_illegal_char (trim c)
              \<longrightarrow> normalizeBase64ForDecode c = trim c
                  \<and> (\<forall>e. build_step mb idx att = Inl e
                           \<longleftrightarrow> parse_step dm mb lg idx att = Inl e))
         \<and> build_maxBytes None = 2000000"
proof (intro conjI impI)
  assume "length (trim c) mod 4 \<noteq> 0 \<or> CHR ''-'' \<in> set (trim c) \<or> CHR ''_'' \<in> set (trim c)
            \<or> has_illegal_char (trim c)"
  then have "length (trim c) mod 4 \<noteq> 0 \<or> has_illegal_char (trim c)"
    using url_safe_illegal[of "trim c"] by blast
  then show "build_step mb idx att = Inl (InvalidEncoding (label_of att idx))"
    unfolding build_step_image[OF assms] by simp
next
  assume ok: "length (trim c) mod 4 = 0 \<and> \<not> has_illegal_char (trim c)"
  then have legal: "\<not> has_illegal_char (trim c)" and len: "length (trim c) mod 4 = 0"
    by simp_all
  show n: "normalizeBase64ForDecode c = trim c"
    using legal len by (rule trimmed_legal_normalize)
  have legal': "\<not> has_illegal_char (normalizeBase64ForDecode c)" using legal n by simp
  show "\<forall>e. build_step mb idx att = Inl e \<longleftrightarrow> parse_step dm mb lg idx att = Inl e"
  proof (cases "length (base64_decode (trim c)) = 0 \<or> length (base64_decode (trim c)) > mb")
    case True
    then have "parse_step dm mb lg idx att
        = Inl (SizeExceeded (label_of att idx) (length (base64_decode (trim c))) mb)"
      using parse_step_size[OF assms(1) legal', of mb dm lg idx] n by simp
    moreover have "build_step mb idx att
        = Inl (SizeExceeded (label_of att idx) (length (base64_decode (trim c))) mb)"
      unfolding build_step_image[OF assms] using True legal len by simp
    ultimately show ?thesis by simp
  next
    case False
    then have "1 \<le> length (base64_decode (trim c)) \<and> length (base64_decode (trim c)) \<le> mb"
      by arith
    then have b: "1 \<le> length (base64_decode (normalizeBase64ForDecode c))"
      "length (base64_decode (normalizeBase64ForDecode c)) \<le> mb" unfolding n by blast+
    have "\<exists>p. parse_step dm mb lg idx att = Inr p"
      using parse_step_valid[OF assms(1) legal' b, of dm lg idx] by simp
    moreover have "\<exists>s. build_step mb idx att = Inr s"
      unfolding build_step_image[OF assms] using False legal len by simp
    ultimately show ?thesis by auto
  qed
next
  show "build_maxBytes None = 2000000" by (simp add: build_maxBytes_def)
qed

theorem legacy_validation_witness:
  "length (trim ''iVBORw0KGgo='') mod 4 = 0 \<and> \<not> has_illegal_char (trim ''iVBORw0KGgo='')
   \<and> normalizeBase64ForDecode ''iVBORw0KGgo='' = trim ''iVBORw0KGgo=''
   \<and> parse_step sample_detectMime 5 True 0 ex_png = Inl (SizeExceeded ''attachment-1'' 8 5)
   \<and> build_step 5 0 ex_png = Inl (SizeExceeded ''attachment-1'' 8 5)
   \<and> length (trim ''iVBORw0KGgo'') mod 4 \<noteq> 0
   \<and> build_step 1000 0 ex_png_unpadded = Inl (InvalidEncoding ''attachment-1'')"
proof -
  have c: "att_content ex_png = Str ''iVBORw0KGgo=''" by code_simp
  have i: "startsWith (mime_or_empty ex_png) ''image/''" by code_simp
  have ok: "length (trim ''iVBORw0KGgo='') mod 4 = 0 \<and> \<not> has_illegal_char (trim ''iVBORw0KGgo='')"
    by code_simp
  have p: "parse_step sample_detectMime 5 True 0 ex_png = Inl (SizeExceeded ''attachment-1'' 8 5)"
    by code_simp
  note t = legacy_validation[OF c i, where mb = 5 and idx = 0 and dm = sample_detectMime
      and lg = True, THEN conjunct2, THEN conjunct1, THEN mp, OF ok]
  from t p have b: "build_step 5 0 ex_png = Inl (SizeExceeded ''attachment-1'' 8 5)" by blast
  have c2: "att_content ex_png_unpadded = Str ''iVBORw0KGgo''" by code_simp
  have i2: "startsWith (mime_or_empty ex_png_unpadded) ''image/''" by code_simp
  have bad: "length (trim ''iVBORw0KGgo'') mod 4 \<noteq> 0" by code_simp
  have l2: "label_of ex_png_unpadded 0 = ''attachment-1''" by code_simp
  have u: "build_step 1000 0 ex_png_unpadded = Inl (InvalidEncoding ''attachment-1'')"
    using legacy_validation[OF c2 i2, where mb = 1000 and idx = 0, THEN conjunct1] bad l2
    by simp
  from ok t[THEN conjunct1] p b bad u show ?thesis by (intro conjI) simp_all
qed

text \<open>
  C3 as stated has the legacy encoder normalize content before validating it.  The
  legacy encoder only trims: an unpadded image and an image in the URL-safe alphabet,
  both accepted by the lenient path, are rejected by the legacy path under the same
  ceiling.
\<close>

theorem legacy_rejects_unnormalized:
  "snd (parseMessageWithAttachments sample_detectMime ''hi'' (Some [Some ex_png_unpadded])
          (Some ex_opts))
     = Inr \<lparr>message = ''hi'',
            images = [\<lparr>img_type = ''image'', img_data = ''iVBORw0KGgo='',
                       img_mimeType = ''image/png''\<rparr>]\<rparr>
   \<and> buildMessageWithAttachments ''hi'' (Some [Some ex_png_unpadded]) (Some 1000)
       = Inl (InvalidEncoding ''attachment-1'')
   \<and> snd (parseMessageWithAttachments sample_detectMime ''hi'' (Some [Some ex_jpeg_url_safe])
            (Some ex_opts))
       = Inr \<lparr>message = ''hi'',
              images = [\<lparr>img_type = ''image'', img_data = ''/9j/4AAQ'',
                         img_mimeType = ''image/jpeg''\<rparr>]\<rparr>
   \<and> buildMessageWithAttachments ''hi'' (Some [Some ex_jpeg_url_safe]) (Some 1000)
       = Inl (InvalidEncoding ''attachment-1'')"
  by code_simp

text \<open>
C8.  Whenever the lenient path returns, the message text is returned unchanged and
  the image list is a sub-sequence of the input list: its data are, in input order, the
  normalized contents of exactly those present attachments whose category is image, and
  every record carries the kind tag \<open>image\<close>.
\<close>

theorem images_are_subsequence:
  assumes "parseMessageWithAttachments dm msg attachments opts = (ws, Inr r)"
  shows "message r = msg
         \<and> map img_data (images r)
             = map (\<lambda>a. normalizeBase64ForDecode (content_text a))
                 (filter (\<lambda>a. attachment_category dm a = Image)
                    (present (case attachments of None \<Rightarrow> [] | Some atts \<Rightarrow> atts)))
         \<and> subseq (map img_data (images r))
              (map (\<lambda>a. normalizeBase64ForDecode (content_text a))
                 (present (case attachments of None \<Rightarrow> [] | Some atts \<Rightarrow> atts)))
         \<and> (\<forall>x \<in> set (images r). img_type x = ''image'')"
proof -
  let ?atts = "case attachments of None \<Rightarrow> [] | Some atts \<Rightarrow> atts"
  let ?f = "\<lambda>a. normalizeBase64ForDecode (content_text a)"
  have main: "message r = msg
      \<and> map img_data (images r) = map ?f (filter (\<lambda>a. attachment_category dm a = Image) (present ?atts))
      \<and> (\<forall>x \<in> set (images r). img_type x = ''image'')"
  proof (cases "?atts = []")
    case True
    then have "r = \<lparr>message = msg, images = []\<rparr>"
      using assms by (auto simp: parseMessageWithAttachments_def Let_def split: option.splits)
    then show ?thesis using True by (simp add: present_simps)
  next
    case False
    then obtain atts where a: "attachments = Some atts" "atts \<noteq> []"
      by (cases attachments) auto
    from assms obtain "is" where l: "parse_loop dm (parse_maxBytes opts) (parse_log opts) 0 atts [] []
        = (ws, Inr is)" and r: "r = \<lparr>message = msg, images = is\<rparr>"
      unfolding a parseMessageWithAttachments_def Let_def using a(2)
      by (auto split: prod.splits sum.splits)
    from parse_loop_images[OF l] show ?thesis using r a by simp
  qed
  have "subseq (map ?f (filter (\<lambda>a. attachment_category dm a = Image) (present ?atts)))
      (map ?f (present ?atts))"
    by (rule subseq_map) simp
  with main show ?thesis by simp
qed

theorem images_are_subsequence_witness:
  "parseMessageWithAttachments sample_detectMime ''hi''
     (Some [Some ex_audio_X, Some ex_jpeg, Some ex_text, Some ex_png]) (Some ex_opts)
   = ([''attachment attachment-3: unable to detect image mime type, dropping''],
      Inr \<lparr>message = ''hi'',
           images = [\<lparr>img_type = ''image'', img_data = ''/9j/4AAQ'', img_mimeType = ''image/jpeg''\<rparr>,
                     \<lparr>img_type = ''image'', img_data = ''iVBORw0KGgo='', img_mimeType = ''image/png''\<rparr>]\<rparr>)
   \<and> [''/9j/4AAQ'', ''iVBORw0KGgo='']
       = map (\<lambda>a. normalizeBase64ForDecode (content_text a))
           (filter (\<lambda>a. attachment_category sample_detectMime a = Image)
              (present [Some ex_audio_X, Some ex_jpeg, Some ex_text, Some ex_png]))
   \<and> subseq [''/9j/4AAQ'', ''iVBORw0KGgo='']
        (map (\<lambda>a. normalizeBase64ForDecode (content_text a))
           (present [Some ex_audio_X, Some ex_jpeg, Some ex_text, Some ex_png]))"
proof -
  have h: "parseMessageWithAttachments sample_detectMime ''hi''
     (Some [Some ex_audio_X, Some ex_jpeg, Some ex_text, Some ex_png]) (Some ex_opts)
   = ([''attachment attachment-3: unable to detect image mime type, dropping''],
      Inr \<lparr>message = ''hi'',
           images = [\<lparr>img_type = ''image'', img_data = ''/9j/4AAQ'', img_mimeType = ''image/jpeg''\<rparr>,
                     \<lparr>img_type = ''image'', img_data = ''iVBORw0KGgo='', img_mimeType = ''image/png''\<rparr>]\<rparr>)"
    by code_simp
  have e: "map img_data (images \<lparr>message = ''hi'',
           images = [\<lparr>img_type = ''image'', img_data = ''/9j/4AAQ'', img_mimeType = ''image/jpeg''\<rparr>,
                     \<lparr>img_type = ''image'', img_data = ''iVBORw0KGgo='', img_mimeType = ''image/png''\<rparr>]\<rparr>)
      = [''/9j/4AAQ'', ''iVBORw0KGgo='']" by simp
  have o: "(case Some [Some ex_audio_X, Some ex_jpeg, Some ex_text, Some ex_png] of
              None \<Rightarrow> [] | Some atts \<Rightarrow> atts)
      = [Some ex_audio_X, Some ex_jpeg, Some ex_text, Some ex_png]" by simp
  note t = images_are_subsequence[OF h, unfolded e o]
  from h t[THEN conjunct2, THEN conjunct1]
    t[THEN conjunct2, THEN conjunct2, THEN conjunct1]
  show ?thesis by (intro conjI)
qed

end
